theory Spec2Isabelle
  imports Complex_Main
begin

section \<open>The Mandelbrot explorer: worker and dispatcher\<close>

text \<open>
  The development embeds two source files: the web worker (\<open>mandelbrot-worker.js\<close>, stored
  after the project description in \<open>src/README.md\<close>) and the class \<open>MandelbrotExplorer\<close>
  of \<open>src/mandelbrot-explorer.js\<close>.

  JavaScript numbers are IEEE doubles. The embedding computes with \<open>real\<close> (and with
  \<open>nat\<close> for pixel indices, row numbers and iteration counters, which the source keeps
  integral and far below \<open>2^53\<close>): rounding, overflow to infinity and NaN are outside
  the model. Concrete inputs below are chosen so that every intermediate value is far
  from a decision boundary. The wheel handler is the exception: the statement about it
  names float64, so it is embedded twice, over the reals and with binary64 rounding.

  Where the source divides by zero or takes the logarithm of a number that is not
  positive (a zoom of 0, an empty canvas), it computes an infinity or NaN, and HOL's
  total functions return some real number instead. The view keeps its zoom positive;
  statements about a quotient fix or assume a positive zoom and a canvas that is not
  empty.
\<close>

subsection \<open>Worker: complex arithmetic and smooth iteration count\<close>

definition complexSquare :: "real \<Rightarrow> real \<Rightarrow> real \<times> real" where
  "complexSquare zr zi = (zr * zr - zi * zi, 2 * zr * zi)"

definition complexMagnitude :: "real \<Rightarrow> real \<Rightarrow> real" where
  "complexMagnitude zr zi = sqrt (zr * zr + zi * zi)"

text \<open>
  \<open>getSmoothIteration(zr, zi, iterations, maxIterations)\<close>: the guard compares with
  \<open>maxIterations - 1\<close> over the integers (no truncation at zero).
\<close>

definition getSmoothIteration :: "real \<Rightarrow> real \<Rightarrow> nat \<Rightarrow> nat \<Rightarrow> real" where
  "getSmoothIteration zr zi iterations maxIterations =
     (if int iterations \<ge> int maxIterations - 1 then real iterations
      else (let modulus = complexMagnitude zr zi;
                nu = log 2 (log 2 modulus)
            in real iterations + 1 - nu))"

subsection \<open>Worker: colour palettes\<close>

text \<open>JavaScript's \<open>v % 1\<close>: the remainder has the sign of the dividend.\<close>

definition jsMod1 :: "real \<Rightarrow> real" where
  "jsMod1 v = (if 0 \<le> v then v - of_int \<lfloor>v\<rfloor> else v - of_int \<lceil>v\<rceil>)"

definition classicColor :: "real \<Rightarrow> real \<times> real \<times> real" where
  "classicColor t =
     (0.5 + 0.5 * cos (6.28318 * (t + 0.0)),
      0.5 + 0.5 * cos (6.28318 * (t + 0.1)),
      0.5 + 0.5 * cos (6.28318 * (t + 0.2)))"

definition fireColor :: "real \<Rightarrow> real \<times> real \<times> real" where
  "fireColor t0 =
     (let t = jsMod1 (t0 * 3) in
      if t < 0.33 then (t * 3 * 0.8, 0, 0)
      else if t < 0.66 then (let p = (t - 0.33) * 3 in (0.8 + 0.2 * p, 0.8 * p, 0))
      else (let p = (t - 0.66) * 3 in (1.0, 0.8 + 0.2 * p, 0.8 * p)))"

definition oceanColor :: "real \<Rightarrow> real \<times> real \<times> real" where
  "oceanColor t = (0.0, 0.07 + 0.43 * t, 0.15 + 0.65 * t)"

definition psychedelicColor :: "real \<Rightarrow> real \<times> real \<times> real" where
  "psychedelicColor t =
     (0.5 + 0.5 * cos (6.28318 * t * 3),
      0.5 + 0.5 * cos (6.28318 * (t * 3 + 0.33)),
      0.5 + 0.5 * cos (6.28318 * (t * 3 + 0.67)))"

definition monochromeColor :: "real \<Rightarrow> real \<times> real \<times> real" where
  "monochromeColor t = (t, t, t)"

text \<open>
  The default branch: \<open>for (let i = 0; i < 4; i++)\<close> accumulating into \<open>color\<close>, with
  \<open>freq\<close> doubled and \<open>amp\<close> halved after each octave.
\<close>

function ultraLoop :: "nat \<Rightarrow> real \<Rightarrow> real \<times> real \<times> real \<Rightarrow> real \<Rightarrow> real \<Rightarrow> real \<times> real \<times> real" where
  "ultraLoop i t color freq amp =
     (if i < 4 then
        (let phase = real i * 0.1;
             c0 = fst color + amp * (0.5 + 0.5 * cos (6.28318 * freq * (t + phase)));
             c1 = fst (snd color) + amp * (0.5 + 0.5 * cos (6.28318 * freq * (t + 0.1 + phase)));
             c2 = snd (snd color) + amp * (0.5 + 0.5 * cos (6.28318 * freq * (1.5 * t + 0.2 + phase)))
         in ultraLoop (i + 1) t (c0, c1, c2) (freq * 2) (amp * 0.5))
      else color)"
  by pat_completeness auto
termination
  by (relation "measure (\<lambda>(i, t, color, freq, amp). 4 - i)") auto

definition ultraSmoothColor :: "real \<Rightarrow> real \<times> real \<times> real" where
  "ultraSmoothColor t =
     (let color = ultraLoop 0 t (0, 0, 0) 1 1
      in (fst color / 1.875, fst (snd color) / 1.875, snd (snd color) / 1.875))"

text \<open>
  \<open>getColor(t, colorScheme)\<close>: clamp \<open>t\<close>, pick the palette by the \<open>switch\<close>, return
  \<open>Math.floor\<close> of each channel times 255.
\<close>

definition getColor :: "real \<Rightarrow> int \<Rightarrow> int \<times> int \<times> int" where
  "getColor t0 colorScheme =
     (let t = max 0 (min 1 t0);
          rgb = (if colorScheme = 0 then classicColor t
                 else if colorScheme = 1 then fireColor t
                 else if colorScheme = 2 then oceanColor t
                 else if colorScheme = 3 then psychedelicColor t
                 else if colorScheme = 4 then monochromeColor t
                 else ultraSmoothColor t)
      in (\<lfloor>fst rgb * 255\<rfloor>, \<lfloor>fst (snd rgb) * 255\<rfloor>, \<lfloor>snd (snd rgb) * 255\<rfloor>))"

subsection \<open>Worker: one sample\<close>

text \<open>Pixel to complex coordinate (the two \<open>const x\<close>, \<open>const y\<close> lines of the sample loop).\<close>

definition pixelToComplex ::
  "real \<Rightarrow> real \<Rightarrow> real \<Rightarrow> real \<Rightarrow> real \<Rightarrow> real \<Rightarrow> real \<Rightarrow> real \<Rightarrow> real \<Rightarrow> real \<times> real" where
  "pixelToComplex px py ox oy width height centerX centerY zoom =
     ((px + ox - width / 2) / (zoom * width / 4) + centerX,
      - (py + oy - height / 2) / (zoom * height / 4) + centerY)"

definition cardioidTest :: "real \<Rightarrow> real \<Rightarrow> bool" where
  "cardioidTest x y =
     (let q = (x - 0.25) * (x - 0.25) + y * y
      in q * (q + (x - 0.25)) \<le> 0.25 * y * y)"

definition bulbTest :: "real \<Rightarrow> real \<Rightarrow> bool" where
  "bulbTest x y = ((x + 1) * (x + 1) + y * y \<le> 0.0625)"

text \<open>
  The iteration loop \<open>for (let i = 0; i < maxIterations; i++)\<close>. The state is the loop
  counter \<open>i\<close>, the point \<open>(zr, zi)\<close> and the variable \<open>iterations\<close>; the last argument
  counts executions of the loop body (it is not a variable of the source). The result
  is the state when the loop is left, by \<open>break\<close> or by its condition.
\<close>

function mandelbrotLoop ::
  "real \<Rightarrow> real \<Rightarrow> nat \<Rightarrow> nat \<Rightarrow> real \<Rightarrow> real \<Rightarrow> nat \<Rightarrow> nat \<Rightarrow> real \<times> real \<times> nat \<times> nat" where
  "mandelbrotLoop x y maxIterations i zr zi iterations steps =
     (if i < maxIterations then
        (let newZ = complexSquare zr zi;
             zr' = fst newZ + x;
             zi' = snd newZ + y;
             magnitude = zr' * zr' + zi' * zi'
         in if magnitude > 256 then (zr', zi', i, steps + 1)
            else mandelbrotLoop x y maxIterations (i + 1) zr' zi' (i + 1) (steps + 1))
      else (zr, zi, iterations, steps))"
  by pat_completeness auto
termination
  by (relation "measure (\<lambda>(x, y, maxIterations, i, zr, zi, iterations, steps). maxIterations - i)") auto

text \<open>
  What one pass of the sample loop does with the point \<open>(x, y)\<close>: \<open>Skipped\<close> when one of
  the two \<open>continue\<close> statements is taken (the iteration loop is not entered), otherwise
  \<open>Iterated zr zi iterations steps\<close> with the state the loop leaves.
\<close>

datatype evaluation = Skipped | Iterated real real nat nat

definition evaluate :: "real \<Rightarrow> real \<Rightarrow> nat \<Rightarrow> evaluation" where
  "evaluate x y maxIterations =
     (if cardioidTest x y then Skipped
      else if bulbTest x y then Skipped
      else (case mandelbrotLoop x y maxIterations 0 0 0 0 0 of
              (zr, zi, iterations, steps) \<Rightarrow> Iterated zr zi iterations steps))"

text \<open>The test \<open>iterations < maxIterations\<close> that guards the colour block.\<close>

fun escaped :: "evaluation \<Rightarrow> nat \<Rightarrow> bool" where
  "escaped Skipped maxIterations = False"
| "escaped (Iterated zr zi iterations steps) maxIterations = (iterations < maxIterations)"

fun loopSteps :: "evaluation \<Rightarrow> nat" where
  "loopSteps Skipped = 0"
| "loopSteps (Iterated zr zi iterations steps) = steps"

text \<open>The value of \<open>smoothIter\<close> in the colour block.\<close>

definition smoothIter :: "bool \<Rightarrow> real \<Rightarrow> real \<Rightarrow> nat \<Rightarrow> nat \<Rightarrow> real" where
  "smoothIter smoothing zr zi iterations maxIterations =
     (if smoothing then getSmoothIteration zr zi iterations maxIterations
      else real iterations)"

text \<open>
  What the sample adds to \<open>totalR\<close>, \<open>totalG\<close>, \<open>totalB\<close>: \<open>None\<close> when the colour block
  is not entered (and \<open>getColor\<close> not called), otherwise the colour it adds.
\<close>

definition sampleColor :: "evaluation \<Rightarrow> nat \<Rightarrow> int \<Rightarrow> bool \<Rightarrow> (int \<times> int \<times> int) option" where
  "sampleColor ev maxIterations colorScheme smoothing =
     (case ev of
        Skipped \<Rightarrow> None
      | Iterated zr zi iterations steps \<Rightarrow>
          if iterations < maxIterations then
            (let normalized = smoothIter smoothing zr zi iterations maxIterations / real maxIterations
             in Some (getColor normalized colorScheme))
          else None)"

text \<open>
  The orbit as the specification words it, over the complex numbers: \<open>z 0 = 0\<close>,
  \<open>z (n + 1) = (z n)\<^sup>2 + c\<close>. It is what the loop above is compared with.
\<close>

fun spec_orbit :: "complex \<Rightarrow> nat \<Rightarrow> complex" where
  "spec_orbit c 0 = 0"
| "spec_orbit c (Suc n) = (spec_orbit c n)\<^sup>2 + c"

subsection \<open>Worker: one pixel and one band\<close>

text \<open>The parameter object of a \<open>calculate\<close> message (fields prefixed with \<open>p_\<close>).\<close>

record params =
  p_startX :: nat
  p_endX :: nat
  p_startY :: nat
  p_endY :: nat
  p_width :: nat
  p_height :: nat
  p_centerX :: real
  p_centerY :: real
  p_zoom :: real
  p_maxIterations :: nat
  p_colorScheme :: int
  p_smoothing :: bool
  p_antialiasing :: bool

definition samples :: "bool \<Rightarrow> nat" where
  "samples antialiasing = (if antialiasing then 4 else 1)"

definition sampleOffsets :: "bool \<Rightarrow> (real \<times> real) list" where
  "sampleOffsets antialiasing =
     (if antialiasing then [(-0.25, -0.25), (0.25, -0.25), (-0.25, 0.25), (0.25, 0.25)]
      else [(0, 0)])"

text \<open>The body of the sample loop: map the pixel, evaluate, add the colour to the totals.\<close>

definition addSample :: "params \<Rightarrow> nat \<Rightarrow> nat \<Rightarrow> nat \<Rightarrow> int \<times> int \<times> int \<Rightarrow> int \<times> int \<times> int" where
  "addSample p px py sample totals =
     (let off = sampleOffsets (p_antialiasing p) ! sample;
          c = pixelToComplex (real px) (real py) (fst off) (snd off)
                (real (p_width p)) (real (p_height p)) (p_centerX p) (p_centerY p) (p_zoom p)
      in case sampleColor (evaluate (fst c) (snd c) (p_maxIterations p))
                (p_maxIterations p) (p_colorScheme p) (p_smoothing p) of
           None \<Rightarrow> totals
         | Some rgb \<Rightarrow>
             (fst totals + fst rgb, fst (snd totals) + fst (snd rgb), snd (snd totals) + snd (snd rgb)))"

text \<open>
  Storing a number into a \<open>Uint8ClampedArray\<close>: clamp to \<open>[0, 255]\<close>, round to the nearest
  integer, ties to the even one.
\<close>

definition toUint8Clamp :: "real \<Rightarrow> nat" where
  "toUint8Clamp v =
     (let clamped = min (max v 0) 255;
          f = \<lfloor>clamped\<rfloor>
      in if clamped < of_int f + 0.5 then nat f
         else if clamped > of_int f + 0.5 then nat (f + 1)
         else if even f then nat f else nat (f + 1))"

text \<open>The four bytes stored for pixel \<open>(px, py)\<close>: the averaged totals and alpha 255.\<close>

definition pixelRGBA :: "params \<Rightarrow> nat \<Rightarrow> nat \<Rightarrow> nat \<times> nat \<times> nat \<times> nat" where
  "pixelRGBA p px py =
     (let n = samples (p_antialiasing p);
          totals = fold (addSample p px py) [0..<n] (0, 0, 0)
      in (toUint8Clamp (real_of_int (fst totals) / real n),
          toUint8Clamp (real_of_int (fst (snd totals)) / real n),
          toUint8Clamp (real_of_int (snd (snd totals)) / real n),
          toUint8Clamp 255))"

text \<open>
  Channel \<open>c\<close> of a pixel, 0 for red up to 3 for alpha: the byte stored at \<open>idx + c\<close>.
\<close>

definition channel :: "nat \<Rightarrow> nat \<times> nat \<times> nat \<times> nat \<Rightarrow> nat" where
  "channel c rgba = [fst rgba, fst (snd rgba), fst (snd (snd rgba)), snd (snd (snd rgba))] ! c"

text \<open>
  Four consecutive stores into a typed array. A store past the end of a typed array is
  ignored, which is what list update does.
\<close>

definition writePixel :: "nat list \<Rightarrow> nat \<Rightarrow> nat \<times> nat \<times> nat \<times> nat \<Rightarrow> nat list" where
  "writePixel buf idx rgba =
     buf[idx := fst rgba, idx + 1 := fst (snd rgba), idx + 2 := fst (snd (snd rgba)),
         idx + 3 := snd (snd (snd rgba))]"

text \<open>
  \<open>calculateMandelbrot(params)\<close>: the buffer is allocated with \<open>width * height * 4\<close>
  zero bytes, and pixel \<open>(px, py)\<close> is stored at \<open>idx = (py * width + px) * 4\<close>. The
  progress messages posted every tenth row do not touch the buffer and are left out.
\<close>

definition calculateRow :: "params \<Rightarrow> nat \<Rightarrow> nat list \<Rightarrow> nat list" where
  "calculateRow p py buf =
     fold (\<lambda>px b. writePixel b ((py * p_width p + px) * 4) (pixelRGBA p px py))
       [p_startX p..<p_endX p] buf"

definition calculateMandelbrot :: "params \<Rightarrow> nat list" where
  "calculateMandelbrot p =
     fold (calculateRow p) [p_startY p..<p_endY p]
       (replicate (p_width p * p_height p * 4) 0)"

text \<open>The \<open>result\<close> message the worker posts back (fields prefixed with \<open>r_\<close>).\<close>

record result =
  r_imageData :: "nat list"
  r_startX :: nat
  r_endX :: nat
  r_startY :: nat
  r_endY :: nat

definition onmessage :: "params \<Rightarrow> result" where
  "onmessage p =
     \<lparr>r_imageData = calculateMandelbrot p,
      r_startX = p_startX p, r_endX = p_endX p,
      r_startY = p_startY p, r_endY = p_endY p\<rparr>"

subsection \<open>Explorer: state and iteration budget\<close>

text \<open>
  The fields of \<open>MandelbrotExplorer\<close> that rendering reads. \<open>qualityIterations\<close> stands for
  \<open>qualitySettings[currentQuality].iterations\<close>, \<open>canvasWidth\<close> and \<open>canvasHeight\<close> for
  \<open>canvas.width\<close> and \<open>canvas.height\<close>; the worker list has \<open>numWorkers\<close> entries.
\<close>

record explorer =
  useWebGL :: bool
  centerX :: real
  centerY :: real
  zoom :: real
  colorScheme :: int
  smoothing :: bool
  antialiasing :: bool
  qualityIterations :: nat
  maxIterations :: nat
  adaptiveQuality :: bool
  isRendering :: bool
  numWorkers :: nat
  canvasWidth :: nat
  canvasHeight :: nat

text \<open>
  The adaptive budget of \<open>renderWebGL\<close> and of \<open>renderCPU\<close>, as functions of the zoom and
  of \<open>this.maxIterations\<close>. The argument of \<open>Math.floor\<close> is at least twice the base,
  so reading the floor as a natural number loses nothing.
\<close>

definition adaptiveIterationsGPU :: "real \<Rightarrow> nat \<Rightarrow> nat" where
  "adaptiveIterationsGPU z ceiling_iterations =
     (let zoomFactor = max 1 (log 10 z)
      in min ceiling_iterations (max 500 (nat \<lfloor>500 + zoomFactor * 500\<rfloor>)))"

definition adaptiveIterationsCPU :: "real \<Rightarrow> nat \<Rightarrow> nat" where
  "adaptiveIterationsCPU z ceiling_iterations =
     (let zoomFactor = max 1 (log 10 z)
      in min ceiling_iterations (max 1000 (nat \<lfloor>1000 + zoomFactor * 1000\<rfloor>)))"

definition webglIterations :: "explorer \<Rightarrow> nat" where
  "webglIterations s =
     (if adaptiveQuality s then adaptiveIterationsGPU (zoom s) (maxIterations s)
      else qualityIterations s)"

definition cpuIterations :: "explorer \<Rightarrow> nat" where
  "cpuIterations s =
     (if adaptiveQuality s then adaptiveIterationsCPU (zoom s) (maxIterations s)
      else qualityIterations s)"

text \<open>
  \<open>detectPerformance()\<close>, reduced to the ceiling it returns. \<open>hardwareConcurrency\<close> and
  \<open>deviceMemory\<close> are the navigator's values, 0 standing for an absent one (the source
  writes \<open>|| 4\<close>).
\<close>

definition detectPerformance :: "nat \<Rightarrow> real \<Rightarrow> nat" where
  "detectPerformance hardwareConcurrency deviceMemory =
     (let cores = (if hardwareConcurrency = 0 then 4 else hardwareConcurrency);
          memory = (if deviceMemory = 0 then 4 else deviceMemory)
      in if cores \<ge> 8 \<and> memory \<ge> 8 then 8000
         else if cores \<ge> 6 \<and> memory \<ge> 6 then 4000
         else if cores \<ge> 4 \<and> memory \<ge> 4 then 2000
         else 1000)"

text \<open>
  The state the constructor leaves, for a browser with or without WebGL, the given
  navigator values and the given canvas size: the default view, quality \<open>ultra\<close>
  (2000 iterations), adaptive quality on.
\<close>

definition newExplorer :: "bool \<Rightarrow> nat \<Rightarrow> real \<Rightarrow> nat \<Rightarrow> nat \<Rightarrow> explorer" where
  "newExplorer gl hardwareConcurrency deviceMemory width height =
     \<lparr>useWebGL = gl,
      centerX = -0.5, centerY = 0, zoom = 0.5,
      colorScheme = 0, smoothing = True, antialiasing = False,
      qualityIterations = 2000,
      maxIterations = detectPerformance hardwareConcurrency deviceMemory,
      adaptiveQuality = True,
      isRendering = False,
      numWorkers = (if hardwareConcurrency = 0 then 4 else hardwareConcurrency),
      canvasWidth = width, canvasHeight = height\<rparr>"

subsection \<open>Explorer: partition into bands, dispatch and assembly\<close>

text \<open>
  The dispatch loop of \<open>renderCPU\<close>, reduced to the row bounds it hands out:
  \<open>for (let i = 0; i < this.numWorkers; i++)\<close> with the \<open>break\<close> at the first band that
  starts at or past \<open>height\<close>.
\<close>

function bandsFrom :: "nat \<Rightarrow> nat \<Rightarrow> nat \<Rightarrow> nat \<Rightarrow> (nat \<times> nat) list" where
  "bandsFrom i workers rowsPerWorker height =
     (if i < workers then
        (let startY = i * rowsPerWorker;
             endY = min ((i + 1) * rowsPerWorker) height
         in if startY \<ge> height then []
            else (startY, endY) # bandsFrom (i + 1) workers rowsPerWorker height)
      else [])"
  by pat_completeness auto
termination
  by (relation "measure (\<lambda>(i, workers, rowsPerWorker, height). workers - i)") auto

definition rowsPerWorker :: "nat \<Rightarrow> nat \<Rightarrow> nat" where
  "rowsPerWorker height workers = nat \<lceil>real height / real workers\<rceil>"

definition bands :: "nat \<Rightarrow> nat \<Rightarrow> (nat \<times> nat) list" where
  "bands height workers = bandsFrom 0 workers (rowsPerWorker height workers) height"

text \<open>The \<open>params\<close> object posted to the worker of the band \<open>[startY, endY)\<close>.\<close>

definition workerParams :: "explorer \<Rightarrow> nat \<Rightarrow> nat \<Rightarrow> params" where
  "workerParams s startY endY =
     \<lparr>p_startX = 0, p_endX = canvasWidth s,
      p_startY = startY, p_endY = endY,
      p_width = canvasWidth s, p_height = canvasHeight s,
      p_centerX = centerX s, p_centerY = centerY s,
      p_zoom = zoom s * 200,
      p_maxIterations = cpuIterations s,
      p_colorScheme = colorScheme s,
      p_smoothing = smoothing s,
      p_antialiasing = False\<rparr>"

definition workerMessages :: "explorer \<Rightarrow> params list" where
  "workerMessages s =
     map (\<lambda>band. workerParams s (fst band) (snd band)) (bands (canvasHeight s) (numWorkers s))"

text \<open>
  Reading a typed array: an index past the end reads \<open>undefined\<close>, which a
  \<open>Uint8ClampedArray\<close> stores as 0.
\<close>

definition readByte :: "nat list \<Rightarrow> nat \<Rightarrow> nat" where
  "readByte data i = (if i < length data then data ! i else 0)"

definition copyPixel :: "nat list \<Rightarrow> nat \<Rightarrow> nat \<Rightarrow> nat list \<Rightarrow> nat list" where
  "copyPixel data srcIdx dstIdx dst =
     dst[dstIdx := readByte data srcIdx, dstIdx + 1 := readByte data (srcIdx + 1),
         dstIdx + 2 := readByte data (srcIdx + 2), dstIdx + 3 := readByte data (srcIdx + 3)]"

text \<open>
  The body of \<open>for (const result of results)\<close>: rows \<open>result.startY\<close> to \<open>result.endY\<close>,
  source index \<open>((y - startY) * width + x) * 4\<close>, destination index \<open>(y * width + x) * 4\<close>.
\<close>

definition copyRow :: "nat \<Rightarrow> result \<Rightarrow> nat \<Rightarrow> nat list \<Rightarrow> nat list" where
  "copyRow width res y dst =
     fold (\<lambda>x d. copyPixel (r_imageData res) (((y - r_startY res) * width + x) * 4)
                   ((y * width + x) * 4) d)
       [0..<width] dst"

definition copyResult :: "nat \<Rightarrow> result \<Rightarrow> nat list \<Rightarrow> nat list" where
  "copyResult width res dst = fold (copyRow width res) [r_startY res..<r_endY res] dst"

definition combineResults :: "nat \<Rightarrow> nat \<Rightarrow> result list \<Rightarrow> nat list" where
  "combineResults width height results =
     fold (copyResult width) results (replicate (width * height * 4) 0)"

text \<open>
  \<open>renderCPU()\<close>. \<open>NotStarted\<close>: the \<open>isRendering\<close> guard returned. \<open>SimpleRender\<close>: no
  workers, \<open>simpleCPURender\<close> was called instead (its pixels are not modelled).
  \<open>NoImage\<close>: \<open>new ImageData(width, height)\<close> throws when a dimension is zero.
  \<open>Drawn fb\<close>: the framebuffer handed to \<open>putImageData\<close>. \<open>Promise.all\<close> delivers the
  results in dispatch order, and each worker's result is a function of its message.
\<close>

datatype render = NotStarted | SimpleRender | NoImage | Drawn "nat list"

definition renderCPU :: "explorer \<Rightarrow> render" where
  "renderCPU s =
     (if isRendering s then NotStarted
      else if numWorkers s = 0 then SimpleRender
      else (let width = canvasWidth s;
                height = canvasHeight s;
                results = map onmessage (workerMessages s)
            in if width = 0 \<or> height = 0 then NoImage
               else Drawn (combineResults width height results)))"

subsection \<open>Explorer: interaction\<close>

definition toggleAntialiasing :: "explorer \<Rightarrow> explorer" where
  "toggleAntialiasing s = s\<lparr>antialiasing := \<not> antialiasing s\<rparr>"



subsection \<open>Explorer: the wheel handler in binary64\<close>

text \<open>
  The claim about zooming at the cursor speaks of float64 as well as of real
  arithmetic, so the wheel handler is embedded a second time, with every arithmetic
  operation rounded the way IEEE 754 binary64 rounds it: to the nearest representable
  number, ties to the even significand.

  \<open>expo x\<close> is the binary exponent of a positive \<open>x\<close>, the integer \<open>e\<close> with
  \<open>2^e \<le> x < 2^(e + 1)\<close>; it is found by scaling \<open>x\<close> into \<open>[1, 2)\<close>, in steps of \<open>2^8\<close>
  while they fit and in steps of 2 after that.
\<close>

function expo :: "real \<Rightarrow> int" where
  "expo x = (if 256 \<le> x then expo (x / 256) + 8
             else if 2 \<le> x then expo (x / 2) + 1
             else if 0 < x \<and> x < 1 / 256 then expo (256 * x) - 8
             else if 0 < x \<and> x < 1 then expo (2 * x) - 1
             else 0)"
  by pat_completeness auto

termination
proof (relation "measure (\<lambda>x. nat \<bar>\<lfloor>log 2 x\<rfloor>\<bar>)")
  show "wf (measure (\<lambda>x. nat \<bar>\<lfloor>log 2 x\<rfloor>\<bar>))" by simp
next
  fix x :: real
  assume x: "256 \<le> x"
  have "log 2 (x / 256) = log 2 x - log 2 (2 ^ 8)" using x by (simp add: log_divide)
  then have "log 2 (x / 256) = log 2 x - 8" by (simp only: log_pow_cancel)
  moreover from x have "(2::real) ^ 8 \<le> x" by simp
  then have "8 \<le> log 2 x" using x by (simp add: le_log_iff powr_realpow del: power_numeral)
  then have "8 \<le> \<lfloor>log 2 x\<rfloor>" by (simp add: le_floor_iff)
  ultimately have "\<lfloor>log 2 (x / 256)\<rfloor> = \<lfloor>log 2 x\<rfloor> - 8 \<and> 8 \<le> \<lfloor>log 2 x\<rfloor>" by simp
  then have "\<bar>\<lfloor>log 2 (x / 256)\<rfloor>\<bar> < \<bar>\<lfloor>log 2 x\<rfloor>\<bar>" by linarith
  then show "(x / 256, x) \<in> measure (\<lambda>x. nat \<bar>\<lfloor>log 2 x\<rfloor>\<bar>)" by simp
next
  fix x :: real
  assume "\<not> 256 \<le> x" and x: "2 \<le> x"
  then have "log 2 (x / 2) = log 2 x - 1" by (simp add: log_divide)
  moreover from x have "1 \<le> log 2 x" by (simp add: le_log_iff)
  then have "1 \<le> \<lfloor>log 2 x\<rfloor>" by (simp add: le_floor_iff)
  ultimately have "\<lfloor>log 2 (x / 2)\<rfloor> = \<lfloor>log 2 x\<rfloor> - 1 \<and> 1 \<le> \<lfloor>log 2 x\<rfloor>" by simp
  then have "\<bar>\<lfloor>log 2 (x / 2)\<rfloor>\<bar> < \<bar>\<lfloor>log 2 x\<rfloor>\<bar>" by linarith
  then show "(x / 2, x) \<in> measure (\<lambda>x. nat \<bar>\<lfloor>log 2 x\<rfloor>\<bar>)" by simp
next
  fix x :: real
  assume "\<not> 256 \<le> x" and "\<not> 2 \<le> x" and x: "0 < x \<and> x < 1 / 256"
  have "log 2 (256 * x) = log 2 (2 ^ 8) + log 2 x" using x by (simp add: log_mult)
  then have "log 2 (256 * x) = log 2 x + 8" by (simp only: log_pow_cancel)
  moreover from x have "x < 2 powr (- 8)" by (simp add: powr_minus powr_realpow inverse_eq_divide)
  then have "log 2 x < - 8" using x by (simp add: log_less_iff)
  then have "\<lfloor>log 2 x\<rfloor> < - 8" by (simp add: floor_less_iff)
  ultimately have "\<lfloor>log 2 (256 * x)\<rfloor> = \<lfloor>log 2 x\<rfloor> + 8 \<and> \<lfloor>log 2 x\<rfloor> < - 8" by simp
  then have "\<bar>\<lfloor>log 2 (256 * x)\<rfloor>\<bar> < \<bar>\<lfloor>log 2 x\<rfloor>\<bar>" by linarith
  then show "(256 * x, x) \<in> measure (\<lambda>x. nat \<bar>\<lfloor>log 2 x\<rfloor>\<bar>)" by simp
next
  fix x :: real
  assume "\<not> 256 \<le> x" and "\<not> 2 \<le> x" and "\<not> (0 < x \<and> x < 1 / 256)"
    and x: "0 < x \<and> x < 1"
  then have "log 2 (2 * x) = log 2 x + 1" by (simp add: log_mult)
  moreover from x have "log 2 x < 0" by simp
  then have "\<lfloor>log 2 x\<rfloor> < 0" by (simp add: floor_less_iff)
  ultimately have "\<lfloor>log 2 (2 * x)\<rfloor> = \<lfloor>log 2 x\<rfloor> + 1 \<and> \<lfloor>log 2 x\<rfloor> < 0" by simp
  then have "\<bar>\<lfloor>log 2 (2 * x)\<rfloor>\<bar> < \<bar>\<lfloor>log 2 x\<rfloor>\<bar>" by linarith
  then show "(2 * x, x) \<in> measure (\<lambda>x. nat \<bar>\<lfloor>log 2 x\<rfloor>\<bar>)" by simp
qed

text \<open>The nearest integer, the even one of the two when \<open>x\<close> lies half way.\<close>

definition roundTiesToEven :: "real \<Rightarrow> int" where
  "roundTiesToEven x =
     (let n = \<lfloor>x\<rfloor>
      in if x - of_int n < 1 / 2 then n
         else if 1 / 2 < x - of_int n then n + 1
         else if even n then n else n + 1)"

definition pow2 :: "int \<Rightarrow> real" where
  "pow2 e = (if 0 \<le> e then 2 ^ nat e else 1 / 2 ^ nat (- e))"

text \<open>
  A double has a significand of 53 binary digits: in the binade \<open>[2^e, 2^(e + 1))\<close>
  the doubles are the multiples of \<open>2^(e - 52)\<close>, and below \<open>2^(-1022)\<close> (the subnormal
  numbers) the multiples of \<open>2^(-1074)\<close>. \<open>quantum x\<close> is the exponent of that spacing at
  \<open>x\<close>, and \<open>fl x\<close> the double nearest to \<open>x\<close>. A magnitude of \<open>2^1024\<close> or more, where a
  double is an infinity, is outside this model as well; no value below comes near it.
\<close>

definition quantum :: "real \<Rightarrow> int" where
  "quantum x = max (expo \<bar>x\<bar>) (- 1022) - 52"

definition fl :: "real \<Rightarrow> real" where
  "fl x = (let e = quantum x in of_int (roundTiesToEven (x / pow2 e)) * pow2 e)"




section \<open>Auxiliary facts\<close>

text \<open>
  The recursive equations of the loops are unfolded by hand: as rewrite rules they
  apply to their own right-hand sides.
\<close>

declare bandsFrom.simps [simp del]
declare mandelbrotLoop.simps [simp del]
declare ultraLoop.simps [simp del]
declare expo.simps [simp del]

subsection \<open>Logarithms at the inputs used below\<close>

lemma log10_million: "log 10 1000000 = 6"
proof -
  have "(1000000::real) = 10 ^ 6" by simp
  then show ?thesis by (simp only: log_pow_cancel)
qed

subsection \<open>Bands\<close>

text \<open>\<open>Math.ceil(height / numWorkers)\<close> by integer division, for evaluation.\<close>

lemma rowsPerWorker_int: "rowsPerWorker height workers = nat (- ((- int height) div int workers))"
proof -
  have "real height / real workers = real_of_int (int height) / real_of_int (int workers)"
    by simp
  then have "\<lceil>real height / real workers\<rceil> = - ((- int height) div int workers)"
    by (simp only: ceiling_divide_eq_div)
  then show ?thesis by (simp add: rowsPerWorker_def)
qed

lemma rowsPerWorker_covers: "1 \<le> workers \<Longrightarrow> height \<le> workers * rowsPerWorker height workers"
proof -
  assume w: "1 \<le> workers"
  have "real height / real workers \<le> real_of_int \<lceil>real height / real workers\<rceil>"
    by (rule le_of_int_ceiling)
  moreover have "0 \<le> \<lceil>real height / real workers\<rceil>"
    by (simp add: less_le_trans[of "-1" 0])
  ultimately have "real height / real workers \<le> real (rowsPerWorker height workers)"
    by (simp add: rowsPerWorker_def)
  then have "real height \<le> real workers * real (rowsPerWorker height workers)"
    using w by (simp add: field_simps)
  then show ?thesis
    by (metis of_nat_le_iff of_nat_mult)
qed

text \<open>A band is handed out exactly when \<open>i < workers\<close> and its first row is below \<open>height\<close>.\<close>

lemma bandsFrom_stop:
  "\<not> (i < workers \<and> i * rpw < height) \<Longrightarrow> bandsFrom i workers rpw height = []"
  by (auto simp: bandsFrom.simps[of i])

lemma bandsFrom_step:
  "i < workers \<and> i * rpw < height \<Longrightarrow>
   bandsFrom i workers rpw height =
     (i * rpw, min ((i + 1) * rpw) height) # bandsFrom (i + 1) workers rpw height"
  by (simp add: bandsFrom.simps[of i] Let_def)

lemma bandsFrom_concat:
  "height \<le> workers * rpw \<Longrightarrow>
   concat (map (\<lambda>b. [fst b..<snd b]) (bandsFrom i workers rpw height)) = [i * rpw..<height]"
proof (induction i workers rpw height rule: bandsFrom.induct)
  case (1 i workers rpw height)
  show ?case
  proof (cases "i < workers \<and> i * rpw < height")
    case False
    then have "bandsFrom i workers rpw height = []"
      by (rule bandsFrom_stop)
    moreover have "height \<le> i * rpw"
    proof (cases "i < workers")
      case True with False show ?thesis by simp
    next
      case False
      then have "workers * rpw \<le> i * rpw" by simp
      with "1.prems" show ?thesis by linarith
    qed
    ultimately show ?thesis by simp
  next
    case True
    note unfold = bandsFrom_step[OF True]
    have ih: "concat (map (\<lambda>b. [fst b..<snd b]) (bandsFrom (i + 1) workers rpw height))
                = [(i + 1) * rpw..<height]"
      using "1.IH"[OF _ refl refl _ "1.prems"] True by simp
    show ?thesis
    proof (cases "(i + 1) * rpw \<le> height")
      case le: True
      then have "[i * rpw..<height] = [i * rpw..<(i + 1) * rpw] @ [(i + 1) * rpw..<height]"
        by (metis add_mult_distrib le_add1 le_add_diff_inverse mult.commute mult_1 upt_add_eq_append)
      with le unfold ih show ?thesis by (simp add: min_def)
    next
      case gt: False
      with unfold ih show ?thesis by (simp add: min_def)
    qed
  qed
qed

lemma bandsFrom_nth:
  "k < length (bandsFrom i workers rpw height) \<Longrightarrow>
   bandsFrom i workers rpw height ! k = ((i + k) * rpw, min ((i + k + 1) * rpw) height)
   \<and> (i + k) * rpw < height \<and> i + k < workers"
proof (induction i workers rpw height arbitrary: k rule: bandsFrom.induct)
  case (1 i workers rpw height)
  show ?case
  proof (cases "i < workers \<and> i * rpw < height")
    case False
    then have "bandsFrom i workers rpw height = []"
      by (rule bandsFrom_stop)
    with "1.prems" show ?thesis by simp
  next
    case True
    note unfold = bandsFrom_step[OF True]
    show ?thesis
    proof (cases k)
      case 0
      with unfold True show ?thesis by simp
    next
      case (Suc j)
      with "1.prems" unfold have j: "j < length (bandsFrom (i + 1) workers rpw height)"
        by simp
      have "bandsFrom (i + 1) workers rpw height ! j
              = ((i + 1 + j) * rpw, min ((i + 1 + j + 1) * rpw) height)
            \<and> (i + 1 + j) * rpw < height \<and> i + 1 + j < workers"
        using "1.IH"[OF _ refl refl _ j] True by simp
      with unfold Suc show ?thesis by simp
    qed
  qed
qed

lemma bandsFrom_length: "length (bandsFrom i workers rpw height) \<le> workers - i"
proof (induction i workers rpw height rule: bandsFrom.induct)
  case (1 i workers rpw height)
  show ?case
  proof (cases "i < workers \<and> i * rpw < height")
    case False
    then have "bandsFrom i workers rpw height = []"
      by (rule bandsFrom_stop)
    then show ?thesis by simp
  next
    case True
    note unfold = bandsFrom_step[OF True]
    have "length (bandsFrom (i + 1) workers rpw height) \<le> workers - (i + 1)"
      using "1.IH"[OF _ refl refl] True by simp
    with unfold True show ?thesis by simp arith
  qed
qed

subsection \<open>Screen positions\<close>


subsection \<open>The iteration loop\<close>

lemma complexSquare_step:
  "Complex (fst (complexSquare zr zi) + x) (snd (complexSquare zr zi) + y)
     = (Complex zr zi)\<^sup>2 + Complex x y"
  by (simp add: complexSquare_def complex_eq_iff power2_eq_square)

lemma magnitude_cmod: "a * a + b * b = (cmod (Complex a b))\<^sup>2"
  unfolding cmod_power2 by (simp add: power2_eq_square)

lemma mandelbrotLoop_exit:
  "\<not> i < M \<Longrightarrow> mandelbrotLoop x y M i zr zi its steps = (zr, zi, its, steps)"
  by (simp add: mandelbrotLoop.simps[of x y M i])

lemma mandelbrotLoop_break:
  "i < M \<Longrightarrow>
   (fst (complexSquare zr zi) + x) * (fst (complexSquare zr zi) + x)
     + (snd (complexSquare zr zi) + y) * (snd (complexSquare zr zi) + y) > 256 \<Longrightarrow>
   mandelbrotLoop x y M i zr zi its steps
     = (fst (complexSquare zr zi) + x, snd (complexSquare zr zi) + y, i, steps + 1)"
  by (simp add: mandelbrotLoop.simps[of x y M i] Let_def)

lemma mandelbrotLoop_continue:
  "i < M \<Longrightarrow>
   \<not> (fst (complexSquare zr zi) + x) * (fst (complexSquare zr zi) + x)
     + (snd (complexSquare zr zi) + y) * (snd (complexSquare zr zi) + y) > 256 \<Longrightarrow>
   mandelbrotLoop x y M i zr zi its steps
     = mandelbrotLoop x y M (i + 1) (fst (complexSquare zr zi) + x)
         (snd (complexSquare zr zi) + y) (i + 1) (steps + 1)"
  by (simp add: mandelbrotLoop.simps[of x y M i] Let_def)

text \<open>
  The loop invariant: entered at counter \<open>i\<close> with \<open>z = spec_orbit c i\<close>, the loop is left
  after body execution number \<open>n\<close> with \<open>z = spec_orbit c n\<close>; no orbit point strictly
  between \<open>i\<close> and \<open>n\<close> is outside the escape radius; and either the last point is
  outside (then \<open>iterations = n - 1\<close>) or the budget is used up.
\<close>

lemma mandelbrotLoop_orbit:
  "i \<le> M \<Longrightarrow> Complex zr zi = spec_orbit (Complex x y) i \<Longrightarrow>
   \<exists>zr' zi' it n.
      mandelbrotLoop x y M i zr zi its steps = (zr', zi', it, steps + (n - i))
    \<and> i \<le> n \<and> n \<le> M
    \<and> Complex zr' zi' = spec_orbit (Complex x y) n
    \<and> (\<forall>k. i < k \<and> k < n \<longrightarrow> (cmod (spec_orbit (Complex x y) k))\<^sup>2 \<le> 256)
    \<and> (if i < n \<and> (cmod (spec_orbit (Complex x y) n))\<^sup>2 > 256 then it = n - 1
        else n = M \<and> (i < n \<longrightarrow> it = M) \<and> (n = i \<longrightarrow> it = its))"
proof (induction x y M i zr zi its steps rule: mandelbrotLoop.induct)
  case (1 x y M i zr zi its steps)
  let ?c = "Complex x y"
  let ?zr = "fst (complexSquare zr zi) + x"
  let ?zi = "snd (complexSquare zr zi) + y"
  show ?case
  proof (cases "i < M")
    case False
    with "1.prems" have iM: "i = M" by simp
    have "mandelbrotLoop x y M i zr zi its steps = (zr, zi, its, steps + (i - i))"
      using False by (simp add: mandelbrotLoop_exit)
    with "1.prems" iM show ?thesis
      by (intro exI[of _ zr] exI[of _ zi] exI[of _ its] exI[of _ i]) simp
  next
    case True
    have next_z: "Complex ?zr ?zi = spec_orbit ?c (i + 1)"
      using "1.prems"(2) by (simp add: complexSquare_step)
    have mag: "?zr * ?zr + ?zi * ?zi = (cmod (spec_orbit ?c (i + 1)))\<^sup>2"
      by (simp only: magnitude_cmod next_z)
    show ?thesis
    proof (cases "?zr * ?zr + ?zi * ?zi > 256")
      case esc: True
      have "mandelbrotLoop x y M i zr zi its steps = (?zr, ?zi, i, steps + ((i + 1) - i))"
        using mandelbrotLoop_break[OF True esc] by simp
      moreover have "(cmod (spec_orbit ?c (i + 1)))\<^sup>2 > 256"
        using esc mag by simp
      ultimately show ?thesis
        using True next_z
        by (intro exI[of _ ?zr] exI[of _ ?zi] exI[of _ i] exI[of _ "i + 1"]) simp
    next
      case noesc: False
      have le: "(cmod (spec_orbit ?c (i + 1)))\<^sup>2 \<le> 256"
        using noesc mag by simp
      have step: "mandelbrotLoop x y M i zr zi its steps
                    = mandelbrotLoop x y M (i + 1) ?zr ?zi (i + 1) (steps + 1)"
        by (rule mandelbrotLoop_continue[OF True noesc])
      from True have le1: "i + 1 \<le> M" by simp
      obtain zr' zi' it n where
        r: "mandelbrotLoop x y M (i + 1) ?zr ?zi (i + 1) (steps + 1)
              = (zr', zi', it, steps + 1 + (n - (i + 1)))"
        and n: "i + 1 \<le> n" "n \<le> M"
        and z: "Complex zr' zi' = spec_orbit ?c n"
        and before: "\<forall>k. i + 1 < k \<and> k < n \<longrightarrow> (cmod (spec_orbit ?c k))\<^sup>2 \<le> 256"
        and fin: "if i + 1 < n \<and> (cmod (spec_orbit ?c n))\<^sup>2 > 256 then it = n - 1
                  else n = M \<and> (i + 1 < n \<longrightarrow> it = M) \<and> (n = i + 1 \<longrightarrow> it = i + 1)"
        using "1.IH"[OF True refl refl refl refl noesc le1 next_z] by blast
      have r': "mandelbrotLoop x y M i zr zi its steps = (zr', zi', it, steps + (n - i))"
        using step r n by simp
      have before': "\<forall>k. i < k \<and> k < n \<longrightarrow> (cmod (spec_orbit ?c k))\<^sup>2 \<le> 256"
      proof (intro allI impI)
        fix k assume k: "i < k \<and> k < n"
        show "(cmod (spec_orbit ?c k))\<^sup>2 \<le> 256"
        proof (cases "k = i + 1")
          case True with le show ?thesis by simp
        next
          case False with k before show ?thesis by simp
        qed
      qed
      have fin': "if i < n \<and> (cmod (spec_orbit ?c n))\<^sup>2 > 256 then it = n - 1
                  else n = M \<and> (i < n \<longrightarrow> it = M) \<and> (n = i \<longrightarrow> it = its)"
      proof (cases "n = i + 1")
        case True
        with fin le show ?thesis by simp
      next
        case False
        with n have "i + 1 < n" by simp
        with n fin show ?thesis by (simp split: if_splits)
      qed
      from r' n z before' fin' show ?thesis
        by (intro exI[of _ zr'] exI[of _ zi'] exI[of _ it] exI[of _ n]) simp
    qed
  qed
qed

lemma evaluate_orbit:
  assumes "\<not> cardioidTest x y" and "\<not> bulbTest x y"
  shows "\<exists>zr zi it n.
           evaluate x y maxIter = Iterated zr zi it n
         \<and> n \<le> maxIter
         \<and> Complex zr zi = spec_orbit (Complex x y) n
         \<and> (\<forall>k. 0 < k \<and> k < n \<longrightarrow> (cmod (spec_orbit (Complex x y) k))\<^sup>2 \<le> 256)
         \<and> (if 0 < n \<and> (cmod (spec_orbit (Complex x y) n))\<^sup>2 > 256 then it = n - 1
            else n = maxIter \<and> it = maxIter)"
proof -
  let ?c = "Complex x y"
  have start: "Complex 0 0 = spec_orbit ?c 0" by (simp add: complex_eq_iff)
  obtain zr zi it n where
    r: "mandelbrotLoop x y maxIter 0 0 0 0 0 = (zr, zi, it, 0 + (n - 0))"
    and n: "n \<le> maxIter"
    and z: "Complex zr zi = spec_orbit ?c n"
    and before: "\<forall>k. 0 < k \<and> k < n \<longrightarrow> (cmod (spec_orbit ?c k))\<^sup>2 \<le> 256"
    and fin: "if 0 < n \<and> (cmod (spec_orbit ?c n))\<^sup>2 > 256 then it = n - 1
              else n = maxIter \<and> (0 < n \<longrightarrow> it = maxIter) \<and> (n = 0 \<longrightarrow> it = 0)"
    using mandelbrotLoop_orbit[OF le0 start, of maxIter 0 0] by blast
  have ev: "evaluate x y maxIter = Iterated zr zi it n"
    using assms r by (simp add: evaluate_def)
  from fin have fin': "if 0 < n \<and> (cmod (spec_orbit ?c n))\<^sup>2 > 256 then it = n - 1
            else n = maxIter \<and> it = maxIter"
    by (cases "n = 0") (simp_all split: if_splits)
  from ev n z before fin' show ?thesis
    by (intro exI[of _ zr] exI[of _ zi] exI[of _ it] exI[of _ n]) simp
qed

text \<open>Three evaluations: the point \<open>i\<close> (bounded orbit) and the point \<open>2 + 2i\<close>.\<close>

lemma evaluate_0_1_3: "evaluate 0 1 3 = Iterated 0 (-1) 3 3"
  by (simp add: evaluate_def cardioidTest_def bulbTest_def mandelbrotLoop.simps complexSquare_def)

lemma evaluate_2_2_3: "evaluate 2 2 3 = Iterated (-94) 42 2 3"
  by (simp add: evaluate_def cardioidTest_def bulbTest_def mandelbrotLoop.simps complexSquare_def)

lemma evaluate_2_2_4: "evaluate 2 2 4 = Iterated (-94) 42 2 3"
  by (simp add: evaluate_def cardioidTest_def bulbTest_def mandelbrotLoop.simps complexSquare_def)

text \<open>After an escape the modulus exceeds 16, so the correction term exceeds 2.\<close>

lemma log2_log2_big:
  assumes "256 < a * a + b * b"
  shows "2 < log 2 (log 2 (complexMagnitude a b))"
proof -
  have "(16::real)\<^sup>2 < a * a + b * b" using assms by simp
  then have m: "16 < complexMagnitude a b"
    unfolding complexMagnitude_def by (rule real_less_rsqrt)
  have "log 2 16 = log 2 (2 ^ 4)" by simp
  also have "\<dots> = 4" by (simp only: log_pow_cancel)
  finally have l16: "log 2 16 = 4" .
  have "log 2 16 < log 2 (complexMagnitude a b)"
    using m by simp
  then have l: "4 < log 2 (complexMagnitude a b)"
    by (simp only: l16)
  have "log 2 4 = log 2 (2 ^ 2)" by simp
  also have "\<dots> = 2" by (simp only: log_pow_cancel)
  finally have l4: "log 2 4 = 2" .
  have "log 2 4 < log 2 (log 2 (complexMagnitude a b))"
    using l by simp
  then show ?thesis by (simp only: l4)
qed

subsection \<open>One pixel\<close>

lemma toUint8Clamp_0: "toUint8Clamp 0 = 0"
  by (simp add: toUint8Clamp_def)

lemma toUint8Clamp_255: "toUint8Clamp 255 = 255"
  by (simp add: toUint8Clamp_def)

text \<open>Without antialiasing, a pixel whose single sample adds no colour is stored as opaque black.\<close>

lemma pixelRGBA_no_colour:
  assumes "\<not> p_antialiasing p"
    and "sampleColor
           (evaluate
              (fst (pixelToComplex (real px) (real py) 0 0 (real (p_width p)) (real (p_height p))
                      (p_centerX p) (p_centerY p) (p_zoom p)))
              (snd (pixelToComplex (real px) (real py) 0 0 (real (p_width p)) (real (p_height p))
                      (p_centerX p) (p_centerY p) (p_zoom p)))
              (p_maxIterations p))
           (p_maxIterations p) (p_colorScheme p) (p_smoothing p) = None"
  shows "pixelRGBA p px py = (0, 0, 0, 255)"
proof -
  have one: "[0..<samples (p_antialiasing p)] = [0]"
    using assms(1) by (simp add: samples_def)
  have off: "sampleOffsets (p_antialiasing p) ! 0 = (0, 0)"
    using assms(1) by (simp add: sampleOffsets_def)
  have "addSample p px py 0 (0, 0, 0) = (0, 0, 0)"
    using assms(2) by (simp add: addSample_def off Let_def)
  then have "fold (addSample p px py) [0..<samples (p_antialiasing p)] (0, 0, 0) = (0, 0, 0)"
    by (simp add: one)
  then show ?thesis
    by (simp add: pixelRGBA_def Let_def toUint8Clamp_0 toUint8Clamp_255)
qed

subsection \<open>Palettes\<close>

text \<open>
  Every palette but Fire yields channels in \<open>[0, 255]\<close>; Fire does so for red and blue, and
  its green channel is at most 256.
\<close>

lemma floor255:
  fixes v :: real
  assumes "0 \<le> v" and "v \<le> 1"
  shows "0 \<le> \<lfloor>v * 255\<rfloor> \<and> \<lfloor>v * 255\<rfloor> \<le> 255"
proof -
  from assms have "0 \<le> v * 255" and "v * 255 \<le> 255" by simp_all
  then show ?thesis by (simp add: floor_le_iff)
qed

lemma cos_unit: "0 \<le> 0.5 + 0.5 * cos x \<and> 0.5 + 0.5 * cos (x::real) \<le> 1"
  using cos_ge_minus_one[of x] cos_le_one[of x] by linarith

lemma ultraLoop_unrolled:
  "ultraLoop 0 t (0, 0, 0) 1 1 =
     (1 * (0.5 + 0.5 * cos (6.28318 * 1 * (t + 0)))
        + 0.5 * (0.5 + 0.5 * cos (6.28318 * 2 * (t + 0.1)))
        + 0.25 * (0.5 + 0.5 * cos (6.28318 * 4 * (t + 0.2)))
        + 0.125 * (0.5 + 0.5 * cos (6.28318 * 8 * (t + 0.3))),
      1 * (0.5 + 0.5 * cos (6.28318 * 1 * (t + 0.1 + 0)))
        + 0.5 * (0.5 + 0.5 * cos (6.28318 * 2 * (t + 0.1 + 0.1)))
        + 0.25 * (0.5 + 0.5 * cos (6.28318 * 4 * (t + 0.1 + 0.2)))
        + 0.125 * (0.5 + 0.5 * cos (6.28318 * 8 * (t + 0.1 + 0.3))),
      1 * (0.5 + 0.5 * cos (6.28318 * 1 * (1.5 * t + 0.2 + 0)))
        + 0.5 * (0.5 + 0.5 * cos (6.28318 * 2 * (1.5 * t + 0.2 + 0.1)))
        + 0.25 * (0.5 + 0.5 * cos (6.28318 * 4 * (1.5 * t + 0.2 + 0.2)))
        + 0.125 * (0.5 + 0.5 * cos (6.28318 * 8 * (1.5 * t + 0.2 + 0.3))))"
  by (simp add: ultraLoop.simps)

lemma octaves_bound:
  fixes a b c d :: real
  assumes "0 \<le> a \<and> a \<le> 1" "0 \<le> b \<and> b \<le> 1" "0 \<le> c \<and> c \<le> 1" "0 \<le> d \<and> d \<le> 1"
  shows "0 \<le> (1 * a + 0.5 * b + 0.25 * c + 0.125 * d) / 1.875
       \<and> (1 * a + 0.5 * b + 0.25 * c + 0.125 * d) / 1.875 \<le> 1"
proof -
  define w where "w = 1 * a + 0.5 * b + 0.25 * c + 0.125 * d"
  have "0 \<le> w" and "w \<le> 1.875"
    unfolding w_def using assms by simp_all
  then have "0 \<le> w / 1.875 \<and> w / 1.875 \<le> 1" by simp
  then show ?thesis by (simp only: w_def)
qed

lemma ultraSmoothColor_unit:
  "(0 \<le> fst (ultraSmoothColor t) \<and> fst (ultraSmoothColor t) \<le> 1)
   \<and> (0 \<le> fst (snd (ultraSmoothColor t)) \<and> fst (snd (ultraSmoothColor t)) \<le> 1)
   \<and> (0 \<le> snd (snd (ultraSmoothColor t)) \<and> snd (snd (ultraSmoothColor t)) \<le> 1)"
proof (intro conjI[of "_ \<and> _" "_"])
  show "0 \<le> fst (ultraSmoothColor t) \<and> fst (ultraSmoothColor t) \<le> 1"
    unfolding ultraSmoothColor_def ultraLoop_unrolled Let_def fst_conv snd_conv
    by (rule octaves_bound; rule cos_unit)
  show "0 \<le> fst (snd (ultraSmoothColor t)) \<and> fst (snd (ultraSmoothColor t)) \<le> 1"
    unfolding ultraSmoothColor_def ultraLoop_unrolled Let_def fst_conv snd_conv
    by (rule octaves_bound; rule cos_unit)
  show "0 \<le> snd (snd (ultraSmoothColor t)) \<and> snd (snd (ultraSmoothColor t)) \<le> 1"
    unfolding ultraSmoothColor_def ultraLoop_unrolled Let_def fst_conv snd_conv
    by (rule octaves_bound; rule cos_unit)
qed

lemma jsMod1_range: "0 \<le> v \<Longrightarrow> 0 \<le> jsMod1 v \<and> jsMod1 v < 1"
  by (simp add: jsMod1_def) linarith

lemma clamp_unit: "0 \<le> max 0 (min 1 t) \<and> max 0 (min 1 (t::real)) \<le> 1"
  by simp

lemma floor_channel:
  fixes v :: real
  assumes "0 \<le> v" and "v * 255 < 257"
  shows "0 \<le> \<lfloor>v * 255\<rfloor> \<and> \<lfloor>v * 255\<rfloor> \<le> 256"
proof -
  from assms(1) have "0 \<le> v * 255" by simp
  then have "0 \<le> \<lfloor>v * 255\<rfloor>" by simp
  moreover from assms(2) have "\<lfloor>v * 255\<rfloor> < 257" by (simp add: floor_less_iff)
  ultimately show ?thesis by simp
qed

lemma fireColor_range:
  assumes "0 \<le> t"
  shows "(0 \<le> fst (fireColor t) \<and> fst (fireColor t) \<le> 1)
       \<and> (0 \<le> fst (snd (fireColor t)) \<and> fst (snd (fireColor t)) * 255 < 257)
       \<and> (0 \<le> snd (snd (fireColor t)) \<and> snd (snd (fireColor t)) \<le> 1)"
proof -
  from assms have "0 \<le> t * 3" by simp
  then have u: "0 \<le> jsMod1 (t * 3) \<and> jsMod1 (t * 3) < 1" by (rule jsMod1_range)
  define u where "u = jsMod1 (t * 3)"
  from u have u0: "0 \<le> u" and u1: "u < 1" by (simp_all add: u_def)
  consider "u < 0.33" | "\<not> u < 0.33" "u < 0.66" | "\<not> u < 0.66" by linarith
  then show ?thesis
  proof cases
    case 1
    with u0 show ?thesis by (simp add: fireColor_def Let_def u_def[symmetric] field_simps)
  next
    case 2
    with u0 show ?thesis by (simp add: fireColor_def Let_def u_def[symmetric] field_simps)
  next
    case 3
    with u1 show ?thesis by (simp add: fireColor_def Let_def u_def[symmetric] field_simps)
  qed
qed

lemma getColor_range:
  "(cs \<noteq> 1 \<longrightarrow>
      0 \<le> fst (getColor t cs) \<and> fst (getColor t cs) \<le> 255
      \<and> 0 \<le> fst (snd (getColor t cs)) \<and> fst (snd (getColor t cs)) \<le> 255
      \<and> 0 \<le> snd (snd (getColor t cs)) \<and> snd (snd (getColor t cs)) \<le> 255)
   \<and> (cs = 1 \<longrightarrow>
      0 \<le> fst (getColor t cs) \<and> fst (getColor t cs) \<le> 255
      \<and> 0 \<le> fst (snd (getColor t cs)) \<and> fst (snd (getColor t cs)) \<le> 256
      \<and> 0 \<le> snd (snd (getColor t cs)) \<and> snd (snd (getColor t cs)) \<le> 255)"
proof -
  define c where "c = max 0 (min 1 t)"
  have c: "0 \<le> c" "c \<le> 1" by (simp_all add: c_def)
  have classic: "0 \<le> \<lfloor>fst (classicColor c) * 255\<rfloor> \<and> \<lfloor>fst (classicColor c) * 255\<rfloor> \<le> 255"
    "0 \<le> \<lfloor>fst (snd (classicColor c)) * 255\<rfloor> \<and> \<lfloor>fst (snd (classicColor c)) * 255\<rfloor> \<le> 255"
    "0 \<le> \<lfloor>snd (snd (classicColor c)) * 255\<rfloor> \<and> \<lfloor>snd (snd (classicColor c)) * 255\<rfloor> \<le> 255"
    unfolding classicColor_def fst_conv snd_conv
    by (rule floor255; rule cos_unit[THEN conjunct1] cos_unit[THEN conjunct2])+
  have psy: "0 \<le> \<lfloor>fst (psychedelicColor c) * 255\<rfloor> \<and> \<lfloor>fst (psychedelicColor c) * 255\<rfloor> \<le> 255"
    "0 \<le> \<lfloor>fst (snd (psychedelicColor c)) * 255\<rfloor> \<and> \<lfloor>fst (snd (psychedelicColor c)) * 255\<rfloor> \<le> 255"
    "0 \<le> \<lfloor>snd (snd (psychedelicColor c)) * 255\<rfloor> \<and> \<lfloor>snd (snd (psychedelicColor c)) * 255\<rfloor> \<le> 255"
    unfolding psychedelicColor_def fst_conv snd_conv
    by (rule floor255; rule cos_unit[THEN conjunct1] cos_unit[THEN conjunct2])+
  have ocean: "0 \<le> \<lfloor>fst (oceanColor c) * 255\<rfloor> \<and> \<lfloor>fst (oceanColor c) * 255\<rfloor> \<le> 255"
    "0 \<le> \<lfloor>fst (snd (oceanColor c)) * 255\<rfloor> \<and> \<lfloor>fst (snd (oceanColor c)) * 255\<rfloor> \<le> 255"
    "0 \<le> \<lfloor>snd (snd (oceanColor c)) * 255\<rfloor> \<and> \<lfloor>snd (snd (oceanColor c)) * 255\<rfloor> \<le> 255"
    using c by (intro floor255; simp add: oceanColor_def)+
  have mono: "0 \<le> \<lfloor>fst (monochromeColor c) * 255\<rfloor> \<and> \<lfloor>fst (monochromeColor c) * 255\<rfloor> \<le> 255"
    "0 \<le> \<lfloor>fst (snd (monochromeColor c)) * 255\<rfloor> \<and> \<lfloor>fst (snd (monochromeColor c)) * 255\<rfloor> \<le> 255"
    "0 \<le> \<lfloor>snd (snd (monochromeColor c)) * 255\<rfloor> \<and> \<lfloor>snd (snd (monochromeColor c)) * 255\<rfloor> \<le> 255"
    using c by (intro floor255; simp add: monochromeColor_def)+
  have ultra: "0 \<le> \<lfloor>fst (ultraSmoothColor c) * 255\<rfloor> \<and> \<lfloor>fst (ultraSmoothColor c) * 255\<rfloor> \<le> 255"
    "0 \<le> \<lfloor>fst (snd (ultraSmoothColor c)) * 255\<rfloor> \<and> \<lfloor>fst (snd (ultraSmoothColor c)) * 255\<rfloor> \<le> 255"
    "0 \<le> \<lfloor>snd (snd (ultraSmoothColor c)) * 255\<rfloor> \<and> \<lfloor>snd (snd (ultraSmoothColor c)) * 255\<rfloor> \<le> 255"
    using ultraSmoothColor_unit[of c] by (intro floor255; simp)+
  have fire: "0 \<le> \<lfloor>fst (fireColor c) * 255\<rfloor> \<and> \<lfloor>fst (fireColor c) * 255\<rfloor> \<le> 255"
    "0 \<le> \<lfloor>fst (snd (fireColor c)) * 255\<rfloor> \<and> \<lfloor>fst (snd (fireColor c)) * 255\<rfloor> \<le> 256"
    "0 \<le> \<lfloor>snd (snd (fireColor c)) * 255\<rfloor> \<and> \<lfloor>snd (snd (fireColor c)) * 255\<rfloor> \<le> 255"
    using fireColor_range[OF c(1)]
    by (intro floor255 floor_channel; simp)+
  show ?thesis
    using classic psy ocean mono ultra fire
    by (simp add: getColor_def Let_def c_def[symmetric])
qed

subsection \<open>Messages\<close>

lemma workerParams_antialiasing:
  "workerParams (s\<lparr>antialiasing := a\<rparr>) startY endY = workerParams s startY endY"
  by (simp add: workerParams_def cpuIterations_def)

subsection \<open>Evaluating list operations at numerals\<close>

lemma list_update_Cons_numeral: "(x # xs)[numeral n := y] = x # xs[pred_numeral n := y]"
  by (simp add: numeral_eq_Suc)

lemma replicate_numeral: "replicate (numeral n) x = x # replicate (pred_numeral n) x"
  by (simp add: numeral_eq_Suc)

subsection \<open>Buffers: the worker's stores and the assembly copy\<close>

text \<open>
  Both loops store four bytes per pixel at four times a pixel number, and the nested loops
  over rows and columns visit the pixel numbers of the band in order.
\<close>

lemma quad_index_neq:
  "k \<noteq> j \<Longrightarrow> c < 4 \<Longrightarrow> d < 4 \<Longrightarrow> k * 4 + c \<noteq> j * 4 + (d::nat)"
  by arith

lemma quad_index_bound: "k < n \<Longrightarrow> c < 4 \<Longrightarrow> k * 4 + c < n * (4::nat)"
  by arith

lemma fold_quad_length:
  "length (fold (\<lambda>j b. b[j * 4 := g j 0, j * 4 + 1 := g j 1, j * 4 + 2 := g j 2,
                          j * 4 + 3 := g j 3]) ks buf) = length buf"
  by (induction ks arbitrary: buf) simp_all

lemma quad_update_nth:
  assumes "c < 4" and "k * 4 + c < length b"
  shows "b[j * 4 := v0, j * 4 + 1 := v1, j * 4 + 2 := v2, j * 4 + 3 := v3] ! (k * 4 + c)
           = (if k = j then [v0, v1, v2, v3] ! c else b ! (k * 4 + c))"
proof (cases "k = j")
  case True
  from assms(1) have "c = 0 \<or> c = 1 \<or> c = 2 \<or> c = 3" by arith
  with True assms(2) show ?thesis
    by (auto simp: nth_list_update)
next
  case False
  have "k * 4 + c \<noteq> j * 4 + d" if "d < 4" for d
    using False assms(1) that by (rule quad_index_neq)
  from this[of 0] this[of 1] this[of 2] this[of 3] False show ?thesis
    by simp
qed

lemma fold_quad_nth:
  fixes g :: "nat \<Rightarrow> nat \<Rightarrow> 'a"
  assumes "c < 4" and "k * 4 + c < length buf"
  shows "fold (\<lambda>j b. b[j * 4 := g j 0, j * 4 + 1 := g j 1, j * 4 + 2 := g j 2,
                       j * 4 + 3 := g j 3]) [lo..<hi] buf ! (k * 4 + c)
           = (if lo \<le> k \<and> k < hi then [g k 0, g k 1, g k 2, g k 3] ! c else buf ! (k * 4 + c))"
proof (induction hi)
  case 0
  show ?case by simp
next
  case (Suc hi)
  let ?f = "\<lambda>j b. b[j * 4 := g j 0, j * 4 + 1 := g j 1, j * 4 + 2 := g j 2, j * 4 + 3 := g j 3]"
  show ?case
  proof (cases "lo \<le> hi")
    case False
    then have e: "[lo..<Suc hi] = []" by simp
    from False have n: "\<not> (lo \<le> k \<and> k < Suc hi)" by arith
    show ?thesis
      unfolding e by (simp only: n fold.simps id_apply if_False)
  next
    case True
    have len: "k * 4 + c < length (fold ?f [lo..<hi] buf)"
      using assms(2) by (simp only: fold_quad_length)
    have "fold ?f [lo..<Suc hi] buf = ?f hi (fold ?f [lo..<hi] buf)"
      using True by simp
    then have "fold ?f [lo..<Suc hi] buf ! (k * 4 + c)
                 = (if k = hi then [g hi 0, g hi 1, g hi 2, g hi 3] ! c
                    else fold ?f [lo..<hi] buf ! (k * 4 + c))"
      using quad_update_nth[OF assms(1) len] by simp
    with Suc True show ?thesis
      by (cases "k = hi") auto
  qed
qed

lemma fold_rows_columns:
  "fold (\<lambda>y. fold (\<lambda>x. f (y * W + x)) [0..<W]) [a..<b] buf = fold f [a * W..<b * W] buf"
proof (induction b arbitrary: buf)
  case 0
  show ?case by simp
next
  case (Suc b)
  show ?case
  proof (cases "a \<le> b")
    case False
    then have "Suc b * W \<le> a * W" by (intro mult_le_mono1) simp
    with False show ?thesis by simp
  next
    case True
    have row: "fold (\<lambda>x. f (b * W + x)) [0..<W] d = fold f [b * W..<b * W + W] d" for d
    proof -
      have "[b * W..<b * W + W] = map (\<lambda>x. b * W + x) [0..<W]"
        by (simp add: map_add_upt add.commute)
      then show ?thesis by (simp add: fold_map comp_def)
    qed
    from True have "a * W \<le> b * W" by (rule mult_le_mono1)
    then have split: "[a * W..<Suc b * W] = [a * W..<b * W] @ [b * W..<b * W + W]"
      using upt_add_eq_append[of "a * W" "b * W" W] by (simp add: add.commute)
    have "fold (\<lambda>y. fold (\<lambda>x. f (y * W + x)) [0..<W]) [a..<Suc b] buf
            = fold (\<lambda>x. f (b * W + x)) [0..<W]
                (fold (\<lambda>y. fold (\<lambda>x. f (y * W + x)) [0..<W]) [a..<b] buf)"
      using True by simp
    also have "\<dots> = fold f [b * W..<b * W + W] (fold f [a * W..<b * W] buf)"
      by (simp only: Suc row)
    also have "\<dots> = fold f [a * W..<Suc b * W] buf"
      by (simp only: split fold_append comp_def)
    finally show ?thesis .
  qed
qed


lemma writePixel_quad:
  "writePixel b (k * 4) rgba
     = b[k * 4 := channel 0 rgba, k * 4 + 1 := channel 1 rgba, k * 4 + 2 := channel 2 rgba,
         k * 4 + 3 := channel 3 rgba]"
  by (simp add: writePixel_def channel_def)

lemma calculateMandelbrot_flat:
  assumes "p_startX p = 0" and "p_endX p = p_width p"
  shows "calculateMandelbrot p
           = fold (\<lambda>k b. writePixel b (k * 4) (pixelRGBA p (k mod p_width p) (k div p_width p)))
               [p_startY p * p_width p..<p_endY p * p_width p]
               (replicate (p_width p * p_height p * 4) 0)"
proof -
  let ?W = "p_width p"
  let ?f = "\<lambda>k b. writePixel b (k * 4) (pixelRGBA p (k mod ?W) (k div ?W))"
  have row: "calculateRow p = (\<lambda>py. fold (\<lambda>x. ?f (py * ?W + x)) [0..<?W])"
  proof (intro ext)
    fix py buf
    have "fold (\<lambda>px b. writePixel b ((py * ?W + px) * 4) (pixelRGBA p px py)) [0..<?W] buf
            = fold (\<lambda>x. ?f (py * ?W + x)) [0..<?W] buf"
      by (rule fold_cong) (simp_all add: add.commute)
    then show "calculateRow p py buf = fold (\<lambda>x. ?f (py * ?W + x)) [0..<?W] buf"
      by (simp only: calculateRow_def assms)
  qed
  have "calculateMandelbrot p
          = fold (\<lambda>y. fold (\<lambda>x. ?f (y * ?W + x)) [0..<?W]) [p_startY p..<p_endY p]
              (replicate (?W * p_height p * 4) 0)"
    by (simp only: calculateMandelbrot_def row)
  also have "\<dots> = fold ?f [p_startY p * ?W..<p_endY p * ?W] (replicate (?W * p_height p * 4) 0)"
    by (rule fold_rows_columns[where f = ?f])
  finally show ?thesis .
qed

lemma calculateMandelbrot_length:
  assumes "p_startX p = 0" and "p_endX p = p_width p"
  shows "length (calculateMandelbrot p) = p_width p * p_height p * 4"
  by (simp only: calculateMandelbrot_flat[OF assms] writePixel_quad length_replicate
      fold_quad_length[where g = "\<lambda>k c. channel c (pixelRGBA p (k mod p_width p) (k div p_width p))"])

lemma calculateMandelbrot_nth:
  assumes "p_startX p = 0" and "p_endX p = p_width p"
    and "c < 4" and "k * 4 + c < p_width p * p_height p * 4"
  shows "calculateMandelbrot p ! (k * 4 + c)
           = (if p_startY p * p_width p \<le> k \<and> k < p_endY p * p_width p
              then channel c (pixelRGBA p (k mod p_width p) (k div p_width p)) else 0)"
proof -
  let ?W = "p_width p"
  let ?g = "\<lambda>k c. channel c (pixelRGBA p (k mod ?W) (k div ?W))"
  have len: "k * 4 + c < length (replicate (?W * p_height p * 4) (0::nat))"
    using assms(4) by simp
  from assms(3) have "c = 0 \<or> c = 1 \<or> c = 2 \<or> c = 3" by arith
  then have pick: "[?g k 0, ?g k 1, ?g k 2, ?g k 3] ! c = ?g k c"
    by auto
  have "calculateMandelbrot p ! (k * 4 + c)
          = (if p_startY p * ?W \<le> k \<and> k < p_endY p * ?W
             then [?g k 0, ?g k 1, ?g k 2, ?g k 3] ! c
             else replicate (?W * p_height p * 4) 0 ! (k * 4 + c))"
    unfolding calculateMandelbrot_flat[OF assms(1,2)] writePixel_quad
    by (rule fold_quad_nth[where g = ?g, OF assms(3) len])
  with assms(4) pick show ?thesis by simp
qed


lemma copyPixel_quad:
  "copyPixel data ((k - off) * 4) (k * 4) d
     = d[k * 4 := readByte data ((k - off) * 4 + 0), k * 4 + 1 := readByte data ((k - off) * 4 + 1),
         k * 4 + 2 := readByte data ((k - off) * 4 + 2),
         k * 4 + 3 := readByte data ((k - off) * 4 + 3)]"
  by (simp add: copyPixel_def)

lemma copyResult_flat:
  "copyResult W res dst
     = fold (\<lambda>k d. copyPixel (r_imageData res) ((k - r_startY res * W) * 4) (k * 4) d)
         [r_startY res * W..<r_endY res * W] dst"
proof -
  let ?off = "r_startY res * W"
  let ?f = "\<lambda>k d. copyPixel (r_imageData res) ((k - ?off) * 4) (k * 4) d"
  have row: "copyRow W res y d = fold (\<lambda>x. ?f (y * W + x)) [0..<W] d"
    if "r_startY res \<le> y" for y d
  proof -
    have "(y - r_startY res) * W + x = y * W + x - ?off" for x
    proof -
      from that have "?off \<le> y * W" by (rule mult_le_mono1)
      then show ?thesis by (simp add: diff_mult_distrib)
    qed
    then show ?thesis by (simp only: copyRow_def)
  qed
  have "fold (copyRow W res) [r_startY res..<r_endY res] dst
          = fold (\<lambda>y. fold (\<lambda>x. ?f (y * W + x)) [0..<W]) [r_startY res..<r_endY res] dst"
  proof (rule fold_cong)
    fix y assume "y \<in> set [r_startY res..<r_endY res]"
    then have "r_startY res \<le> y" by simp
    then show "copyRow W res y = fold (\<lambda>x. ?f (y * W + x)) [0..<W]"
      by (intro ext) (rule row)
  qed simp_all
  also have "\<dots> = fold ?f [r_startY res * W..<r_endY res * W] dst"
    by (rule fold_rows_columns[where f = ?f])
  finally show ?thesis by (simp only: copyResult_def)
qed

lemma copyResult_length: "length (copyResult W res dst) = length dst"
  by (simp only: copyResult_flat copyPixel_quad
      fold_quad_length[where g = "\<lambda>k c. readByte (r_imageData res) ((k - r_startY res * W) * 4 + c)"])

lemma copyResult_nth:
  assumes "c < 4" and "k * 4 + c < length dst"
  shows "copyResult W res dst ! (k * 4 + c)
           = (if r_startY res * W \<le> k \<and> k < r_endY res * W
              then readByte (r_imageData res) ((k - r_startY res * W) * 4 + c)
              else dst ! (k * 4 + c))"
proof -
  let ?g = "\<lambda>k c. readByte (r_imageData res) ((k - r_startY res * W) * 4 + c)"
  from assms(1) have "c = 0 \<or> c = 1 \<or> c = 2 \<or> c = 3" by arith
  then have pick: "[?g k 0, ?g k 1, ?g k 2, ?g k 3] ! c = ?g k c"
    by auto
  have "copyResult W res dst ! (k * 4 + c)
          = (if r_startY res * W \<le> k \<and> k < r_endY res * W
             then [?g k 0, ?g k 1, ?g k 2, ?g k 3] ! c else dst ! (k * 4 + c))"
    unfolding copyResult_flat copyPixel_quad
    by (rule fold_quad_nth[where g = ?g, OF assms])
  with pick show ?thesis by simp
qed

lemma first_band_copy:
  assumes "p_startX p = 0" and "p_endX p = p_width p" and "p_startY p = 0"
  shows "copyResult (p_width p) (onmessage p) (replicate (p_width p * p_height p * 4) 0)
           = calculateMandelbrot p"
proof (rule nth_equalityI)
  let ?W = "p_width p"
  let ?n = "?W * p_height p * 4"
  show "length (copyResult ?W (onmessage p) (replicate ?n 0)) = length (calculateMandelbrot p)"
    by (simp add: copyResult_length calculateMandelbrot_length[OF assms(1,2)])
  fix i assume "i < length (copyResult ?W (onmessage p) (replicate ?n 0))"
  then have i: "i < ?n" by (simp add: copyResult_length)
  define k c where "k = i div 4" and "c = i mod 4"
  have ic: "i = k * 4 + c" and c: "c < 4" by (simp_all add: k_def c_def)
  have in_range: "k * 4 + c < length (calculateMandelbrot p)"
    using i ic by (simp add: calculateMandelbrot_length[OF assms(1,2)])
  have "copyResult ?W (onmessage p) (replicate ?n 0) ! (k * 4 + c)
          = (if k < p_endY p * ?W then calculateMandelbrot p ! (k * 4 + c) else 0)"
    using copyResult_nth[OF c, of k "replicate ?n 0" ?W "onmessage p"] i ic in_range
    by (simp add: onmessage_def assms(3) readByte_def)
  also have "\<dots> = calculateMandelbrot p ! (k * 4 + c)"
    using calculateMandelbrot_nth[OF assms(1,2) c, of k] i ic by (simp add: assms(3))
  finally show "copyResult ?W (onmessage p) (replicate ?n 0) ! i = calculateMandelbrot p ! i"
    by (simp only: ic)
qed

lemma later_band_copy:
  assumes "p_startX p = 0" and "p_endX p = p_width p"
    and "p_endY p \<le> p_height p" and "p_endY p \<le> 2 * p_startY p"
    and "length dst = p_width p * p_height p * 4"
    and zero: "\<And>k c. c < 4 \<Longrightarrow> p_startY p * p_width p \<le> k \<Longrightarrow> k < p_endY p * p_width p
               \<Longrightarrow> dst ! (k * 4 + c) = 0"
  shows "copyResult (p_width p) (onmessage p) dst = dst"
proof (rule nth_equalityI)
  let ?W = "p_width p"
  show "length (copyResult ?W (onmessage p) dst) = length dst"
    by (rule copyResult_length)
  fix i assume "i < length (copyResult ?W (onmessage p) dst)"
  then have i: "i < ?W * p_height p * 4" by (simp add: copyResult_length assms(5))
  define k c where "k = i div 4" and "c = i mod 4"
  have ic: "i = k * 4 + c" and c: "c < 4" by (simp_all add: k_def c_def)
  have len: "k * 4 + c < length dst"
    using i ic by (simp add: assms(5))
  have fields: "r_imageData (onmessage p) = calculateMandelbrot p"
    "r_startY (onmessage p) = p_startY p" "r_endY (onmessage p) = p_endY p"
    by (simp_all add: onmessage_def)
  have nth: "copyResult ?W (onmessage p) dst ! (k * 4 + c)
               = (if p_startY p * ?W \<le> k \<and> k < p_endY p * ?W
                  then readByte (calculateMandelbrot p) ((k - p_startY p * ?W) * 4 + c)
                  else dst ! (k * 4 + c))"
    using copyResult_nth[OF c len, of ?W "onmessage p"] by (simp only: fields)
  have "copyResult ?W (onmessage p) dst ! (k * 4 + c) = dst ! (k * 4 + c)"
  proof (cases "p_startY p * ?W \<le> k \<and> k < p_endY p * ?W")
    case False
    with nth show ?thesis by simp
  next
    case True
    let ?k' = "k - p_startY p * ?W"
    have "p_endY p * ?W \<le> 2 * p_startY p * ?W"
      using assms(4) by (rule mult_le_mono1)
    then have "p_endY p * ?W \<le> 2 * (p_startY p * ?W)"
      by (simp only: mult.assoc)
    with True have before: "?k' < p_startY p * ?W" by linarith
    have small: "?k' * 4 + c < ?W * p_height p * 4"
      using i ic by simp
    have "calculateMandelbrot p ! (?k' * 4 + c) = 0"
      using calculateMandelbrot_nth[OF assms(1,2) c small] before by simp
    then have "readByte (calculateMandelbrot p) (?k' * 4 + c) = 0"
      by (simp add: readByte_def)
    moreover have "dst ! (k * 4 + c) = 0"
      using zero[OF c] True by simp
    ultimately show ?thesis
      using nth True by simp
  qed
  then show "copyResult ?W (onmessage p) dst ! i = dst ! i"
    by (simp only: ic)
qed


lemma workerParams_fields:
  "p_startX (workerParams s a b) = 0" "p_endX (workerParams s a b) = canvasWidth s"
  "p_startY (workerParams s a b) = a" "p_endY (workerParams s a b) = b"
  "p_width (workerParams s a b) = canvasWidth s" "p_height (workerParams s a b) = canvasHeight s"
  by (simp_all add: workerParams_def)

lemma later_bands_identity:
  assumes "1 \<le> j" and "length dst = canvasWidth s * canvasHeight s * 4"
    and "\<And>k c. c < 4 \<Longrightarrow> rpw * canvasWidth s \<le> k \<Longrightarrow> k * 4 + c < length dst
               \<Longrightarrow> dst ! (k * 4 + c) = 0"
  shows "fold (copyResult (canvasWidth s))
           (map onmessage (map (\<lambda>band. workerParams s (fst band) (snd band))
              (bandsFrom j n rpw (canvasHeight s)))) dst = dst"
  using assms
proof (induction j n rpw "canvasHeight s" rule: bandsFrom.induct)
  case (1 j n rpw)
  let ?W = "canvasWidth s"
  let ?H = "canvasHeight s"
  note j = "1.prems"(1) and len = "1.prems"(2) and zero = "1.prems"(3)
  show ?case
  proof (cases "j < n \<and> j * rpw < ?H")
    case False
    then show ?thesis by (simp add: bandsFrom_stop)
  next
    case True
    let ?sY = "j * rpw"
    let ?eY = "min ((j + 1) * rpw) ?H"
    let ?p = "workerParams s ?sY ?eY"
    note unfold = bandsFrom_step[OF True]
    from j have a: "rpw \<le> j * rpw" by (cases j) simp_all
    have e2: "?eY \<le> 2 * ?sY"
    proof -
      have b: "(j + 1) * rpw = j * rpw + rpw" by (simp add: algebra_simps)
      have c: "?eY \<le> (j + 1) * rpw" by (rule min.cobounded1)
      from a b c show ?thesis by linarith
    qed
    have z: "dst ! (k * 4 + c) = 0"
      if "c < 4" and "?sY * ?W \<le> k" and "k < ?eY * ?W" for k c
    proof -
      from a have "rpw * ?W \<le> ?sY * ?W" by (rule mult_le_mono1)
      with that(2) have lo: "rpw * ?W \<le> k" by linarith
      have "?eY * ?W \<le> ?H * ?W" by (rule mult_le_mono1) simp
      with that(3) have "k < ?H * ?W" by linarith
      then have "k < ?W * ?H" by (simp only: mult.commute)
      then have "k * 4 + c < ?W * ?H * 4" using that(1) by (rule quad_index_bound)
      then have "k * 4 + c < length dst" by (simp only: len)
      from zero[OF that(1) lo this] show ?thesis .
    qed
    have "copyResult (p_width ?p) (onmessage ?p) dst = dst"
    proof (rule later_band_copy)
      show "p_startX ?p = 0" by (rule workerParams_fields)
      show "p_endX ?p = p_width ?p" by (simp only: workerParams_fields)
      show "p_endY ?p \<le> p_height ?p" by (simp only: workerParams_fields min.cobounded2)
      show "p_endY ?p \<le> 2 * p_startY ?p" by (simp only: workerParams_fields e2)
      show "length dst = p_width ?p * p_height ?p * 4" by (simp only: workerParams_fields len)
      show "dst ! (k * 4 + c) = 0"
        if "c < 4" and "p_startY ?p * p_width ?p \<le> k" and "k < p_endY ?p * p_width ?p" for k c
        using that unfolding workerParams_fields by (rule z)
    qed
    then have here: "copyResult ?W (onmessage ?p) dst = dst"
      by (simp only: workerParams_fields)
    have j1: "1 \<le> j + 1" by simp
    have rest: "fold (copyResult ?W)
           (map onmessage (map (\<lambda>band. workerParams s (fst band) (snd band))
              (bandsFrom (j + 1) n rpw ?H))) dst = dst"
      using True by (intro "1.hyps"[OF _ refl refl _ j1 len zero]) simp_all
    show ?thesis
      by (simp only: unfold list.map fold_simps fst_conv snd_conv here rest)
  qed
qed


lemma rowsPerWorker_pos: "1 \<le> workers \<Longrightarrow> 0 < height \<Longrightarrow> 0 < rowsPerWorker height workers"
  using rowsPerWorker_covers[of workers height] by (cases "rowsPerWorker height workers") simp_all

lemma channel_alpha: "channel 3 (pixelRGBA p px py) = 255"
  by (simp add: channel_def pixelRGBA_def Let_def toUint8Clamp_255)

lemma renderCPU_first_buffer:
  assumes "\<not> isRendering s" and "1 \<le> numWorkers s"
    and "0 < canvasWidth s" and "0 < canvasHeight s"
  shows "renderCPU s
           = Drawn (calculateMandelbrot
               (workerParams s 0
                  (min (rowsPerWorker (canvasHeight s) (numWorkers s)) (canvasHeight s))))"
proof -
  let ?W = "canvasWidth s"
  let ?H = "canvasHeight s"
  let ?n = "numWorkers s"
  let ?rpw = "rowsPerWorker ?H ?n"
  let ?p0 = "workerParams s 0 (min ?rpw ?H)"
  let ?B0 = "calculateMandelbrot ?p0"
  let ?wp = "\<lambda>band. workerParams s (fst band) (snd band)"
  have first: "0 < ?n \<and> 0 * ?rpw < ?H"
    using assms by simp
  have b: "bands ?H ?n = (0, min ?rpw ?H) # bandsFrom 1 ?n ?rpw ?H"
    using bandsFrom_step[OF first] by (simp add: bands_def)
  have c0: "copyResult ?W (onmessage ?p0) (replicate (?W * ?H * 4) 0) = ?B0"
    using first_band_copy[of ?p0] by (simp add: workerParams_fields)
  have len: "length ?B0 = ?W * ?H * 4"
    using calculateMandelbrot_length[of ?p0] by (simp add: workerParams_fields)
  have zero: "?B0 ! (k * 4 + c) = 0"
    if "c < 4" and "?rpw * ?W \<le> k" and "k * 4 + c < length ?B0" for k c
  proof -
    have "min ?rpw ?H * ?W \<le> ?rpw * ?W" by (rule mult_le_mono1) simp
    with that(2) have "\<not> k < min ?rpw ?H * ?W" by linarith
    moreover from that(3) have "k * 4 + c < p_width ?p0 * p_height ?p0 * 4"
      by (simp only: len workerParams_fields)
    ultimately show ?thesis
      using calculateMandelbrot_nth[of ?p0 c k] that(1)
      by (simp add: workerParams_fields)
  qed
  have rest: "fold (copyResult ?W) (map onmessage (map ?wp (bandsFrom 1 ?n ?rpw ?H))) ?B0 = ?B0"
    by (rule later_bands_identity[OF order_refl len zero])
  have "combineResults ?W ?H (map onmessage (workerMessages s)) = ?B0"
    by (simp only: combineResults_def workerMessages_def b list.map fold_simps fst_conv snd_conv
        c0 rest)
  with assms show ?thesis
    by (simp add: renderCPU_def Let_def)
qed

lemma list8: "length xs = 8 \<Longrightarrow> xs = [xs ! 0, xs ! 1, xs ! 2, xs ! 3, xs ! 4, xs ! 5, xs ! 6, xs ! 7]"
  by (auto simp: numeral_eq_Suc length_Suc_conv)

subsection \<open>Binary64 rounding\<close>

text \<open>
  What the rounding of the binary64 embedding is: \<open>expo\<close> is the floor of the binary
  logarithm, and \<open>fl x\<close> is within half a unit in the last place of \<open>x\<close>. The literals
  of the wheel handler round to the doubles \<open>0x3FECCCCCCCCCCCCD\<close> and
  \<open>0x3FF199999999999A\<close>; a value half way between two doubles goes to the one with the
  even significand.
\<close>

lemma expo_floor_log:
  "0 < x \<Longrightarrow> expo x = \<lfloor>log 2 x\<rfloor>"
proof (induction x rule: expo.induct)
  case (1 x)
  show ?case
  proof -
    consider (a) "256 \<le> x" | (b) "2 \<le> x" "x < 256" | (c) "x < 1 / 256" | (d) "1 / 256 \<le> x" "x < 1"
      | (e) "1 \<le> x" "x < 2" by linarith
    then show ?thesis
    proof cases
      case a
      have "log 2 (x / 256) = log 2 x - log 2 (2 ^ 8)" using a by (simp add: log_divide)
      then have l: "log 2 (x / 256) = log 2 x - 8" by (simp only: log_pow_cancel)
      from a have "expo (x / 256) = \<lfloor>log 2 (x / 256)\<rfloor>" by (intro "1.IH"(1)) simp_all
      then show ?thesis using a l by (subst expo.simps) simp
    next
      case b
      then have l: "log 2 (x / 2) = log 2 x - 1" by (simp add: log_divide)
      from b have "expo (x / 2) = \<lfloor>log 2 (x / 2)\<rfloor>" by (intro "1.IH"(2)) simp_all
      then show ?thesis using b l by (subst expo.simps) simp
    next
      case c
      have "log 2 (256 * x) = log 2 (2 ^ 8) + log 2 x" using "1.prems" by (simp add: log_mult)
      then have l: "log 2 (256 * x) = log 2 x + 8" by (simp only: log_pow_cancel)
      from c "1.prems" have "expo (256 * x) = \<lfloor>log 2 (256 * x)\<rfloor>" by (intro "1.IH"(3)) simp_all
      then show ?thesis using c "1.prems" l by (subst expo.simps) simp
    next
      case d
      have l: "log 2 (2 * x) = log 2 x + 1" using "1.prems" by (simp add: log_mult)
      from d "1.prems" have "expo (2 * x) = \<lfloor>log 2 (2 * x)\<rfloor>" by (intro "1.IH"(4)) simp_all
      then show ?thesis using d "1.prems" l by (subst expo.simps) simp
    next
      case e
      then have "0 \<le> log 2 x" "log 2 x < 1" by simp_all
      then have "\<lfloor>log 2 x\<rfloor> = 0" by (simp add: floor_eq_iff)
      then show ?thesis using e by (subst expo.simps) simp
    qed
  qed
qed

lemma roundTiesToEven_nearest:
  "\<bar>of_int (roundTiesToEven x) - x\<bar> \<le> 1 / 2"
  unfolding roundTiesToEven_def Let_def by (simp; linarith)

lemma pow2_pos: "0 < pow2 e"
  by (simp add: pow2_def)

lemma fl_nearest:
  "\<bar>fl x - x\<bar> \<le> pow2 (quantum x) / 2"
proof -
  define q where "q = pow2 (quantum x)"
  define m where "m = roundTiesToEven (x / q)"
  have q: "0 < q" unfolding q_def by (rule pow2_pos)
  have "\<bar>of_int m - x / q\<bar> \<le> 1 / 2"
    unfolding m_def by (rule roundTiesToEven_nearest)
  then have "\<bar>of_int m - x / q\<bar> * q \<le> 1 / 2 * q"
    using q by (intro mult_right_mono) simp_all
  moreover have "\<bar>of_int m - x / q\<bar> * q = \<bar>of_int m - x / q\<bar> * \<bar>q\<bar>"
    using q by simp
  moreover have "\<bar>of_int m - x / q\<bar> * \<bar>q\<bar> = \<bar>(of_int m - x / q) * q\<bar>"
    by (simp only: abs_mult)
  moreover have "(of_int m - x / q) * q = of_int m * q - x"
    using q by (simp add: left_diff_distrib)
  ultimately have "\<bar>of_int m * q - x\<bar> \<le> q / 2" by simp
  then show ?thesis by (simp add: fl_def Let_def q_def m_def)
qed

lemmas fl_eval = fl_def quantum_def pow2_def roundTiesToEven_def expo.simps

lemma fl_literals:
  "fl 0.9 = 8106479329266893 / 2 ^ 53 \<and> fl 1.1 = 2476979795053773 / 2 ^ 51"
  by (simp add: fl_eval)

lemma fl_ties:
  "fl (1 + 1 / 2 ^ 53) = 1 \<and> fl (1 + 3 / 2 ^ 53) = 1 + 1 / 2 ^ 51
   \<and> fl (1 / 3) = 6004799503160661 / 2 ^ 54 \<and> fl (- 277 / 100) = - (6237485483908137 / 2 ^ 51)"
  by (simp add: fl_eval)

section \<open>The claims\<close>

text \<open>
  C1: the assembled framebuffer is claimed to hold, at every row of every dispatched
  band, the bytes the band's worker computed, copied from a band buffer of
  \<open>(endY - startY) * width * 4\<close> bytes. What \<open>renderCPU\<close> does, for every state that
  reaches assembly (not already rendering, at least one worker, a canvas that is not
  empty): every worker returns a buffer of \<open>width * height * 4\<close> bytes in which it stored
  its rows at their frame-absolute positions; assembly reads each buffer at band-relative
  positions; so the framebuffer is the first worker's buffer. At the rows of the band
  that starts at row 0 it holds the bytes that band's worker computed; at the rows of
  every other band it holds 0 in all four channels, although that band's worker computed
  alpha 255 for each of its pixels.
\<close>

theorem only_first_band_drawn:
  assumes "\<not> isRendering s" and "1 \<le> numWorkers s"
    and "0 < canvasWidth s" and "0 < canvasHeight s"
  shows "\<exists>fb. renderCPU s = Drawn fb
         \<and> length fb = canvasWidth s * canvasHeight s * 4
         \<and> (\<forall>startY endY x y c.
               (startY, endY) \<in> set (bands (canvasHeight s) (numWorkers s))
               \<and> startY \<le> y \<and> y < endY \<and> x < canvasWidth s \<and> c < 4
               \<longrightarrow> fb ! ((y * canvasWidth s + x) * 4 + c)
                     = (if startY = 0
                        then channel c (pixelRGBA (workerParams s startY endY) x y) else 0)
                   \<and> channel 3 (pixelRGBA (workerParams s startY endY) x y) = 255
                   \<and> length (r_imageData (onmessage (workerParams s startY endY)))
                       = canvasWidth s * canvasHeight s * 4)"
proof -
  let ?W = "canvasWidth s"
  let ?H = "canvasHeight s"
  let ?n = "numWorkers s"
  let ?rpw = "rowsPerWorker ?H ?n"
  let ?e0 = "min ?rpw ?H"
  let ?p0 = "workerParams s 0 ?e0"
  let ?B0 = "calculateMandelbrot ?p0"
  have r: "renderCPU s = Drawn ?B0"
    by (rule renderCPU_first_buffer[OF assms])
  have len: "length ?B0 = ?W * ?H * 4"
    using calculateMandelbrot_length[of ?p0] by (simp add: workerParams_fields)
  have rpw: "0 < ?rpw"
    using assms(2,4) by (rule rowsPerWorker_pos)
  have px: "?B0 ! ((y * ?W + x) * 4 + c)
              = (if startY = 0 then channel c (pixelRGBA (workerParams s startY endY) x y) else 0)
            \<and> channel 3 (pixelRGBA (workerParams s startY endY) x y) = 255
            \<and> length (r_imageData (onmessage (workerParams s startY endY))) = ?W * ?H * 4"
    if band: "(startY, endY) \<in> set (bands ?H ?n)"
      and y: "startY \<le> y" "y < endY" and x: "x < ?W" and c: "c < 4"
    for startY endY x y c
  proof -
    from band obtain i where i: "i < length (bandsFrom 0 ?n ?rpw ?H)"
      and bi: "bandsFrom 0 ?n ?rpw ?H ! i = (startY, endY)"
      unfolding bands_def by (auto simp: in_set_conv_nth)
    from bandsFrom_nth[OF i] bi have s: "startY = i * ?rpw"
      and e: "endY = min ((i + 1) * ?rpw) ?H" by simp_all
    from y e have yH: "y < ?H" and yi: "y < (i + 1) * ?rpw" by simp_all
    let ?k = "y * ?W + x"
    have kmod: "?k mod ?W = x" and kdiv: "?k div ?W = y"
      using x by simp_all
    have "?k < y * ?W + ?W" using x by simp
    also have "\<dots> = (y + 1) * ?W" by simp
    also have "\<dots> \<le> ?H * ?W" using yH by (intro mult_le_mono1) simp
    finally have "?k < ?H * ?W" .
    then have "?k < ?W * ?H" by (simp only: mult.commute)
    then have inr: "?k * 4 + c < ?W * ?H * 4" using c by (rule quad_index_bound)
    have nth: "?B0 ! (?k * 4 + c)
                = (if ?k < ?e0 * ?W then channel c (pixelRGBA ?p0 x y) else 0)"
      using calculateMandelbrot_nth[of ?p0 c ?k] c inr
      by (simp only: workerParams_fields kmod kdiv) simp
    have first: "?B0 ! (?k * 4 + c)
             = (if startY = 0 then channel c (pixelRGBA (workerParams s startY endY) x y) else 0)"
    proof (cases "i = 0")
      case True
      with s e have se: "startY = 0" "endY = ?e0" by simp_all
      from y(2) se have "y + 1 \<le> ?e0" by simp
      then have "(y + 1) * ?W \<le> ?e0 * ?W" by (rule mult_le_mono1)
      moreover have "?k < (y + 1) * ?W" using x by simp
      ultimately have "?k < ?e0 * ?W" by linarith
      with nth se show ?thesis by simp
    next
      case False
      then have "?rpw \<le> i * ?rpw" by (cases i) simp_all
      with s y(1) have "?rpw \<le> y" by linarith
      then have "?e0 \<le> y" by simp
      then have "?e0 * ?W \<le> y * ?W" by (rule mult_le_mono1)
      then have "\<not> ?k < ?e0 * ?W" by linarith
      moreover from False s rpw have "startY \<noteq> 0" by simp
      ultimately show ?thesis using nth by simp
    qed
    have l: "length (r_imageData (onmessage (workerParams s startY endY))) = ?W * ?H * 4"
      using calculateMandelbrot_length[of "workerParams s startY endY"]
      by (simp add: onmessage_def workerParams_fields)
    from first l show ?thesis by (simp only: channel_alpha)
  qed
  from r len px show ?thesis by blast
qed

text \<open>
  A canvas one pixel wide and two pixels high with two workers, in the state the
  constructor leaves: bands \<open>[0, 1)\<close> and \<open>[1, 2)\<close>, both pixels inside the cardioid and
  computed as opaque black by their workers, and a framebuffer whose second pixel is
  \<open>(0, 0, 0, 0)\<close>.
\<close>

theorem only_first_band_drawn_witness:
  "\<not> isRendering (newExplorer False 2 4 1 2)
   \<and> 1 \<le> numWorkers (newExplorer False 2 4 1 2)
   \<and> 0 < canvasWidth (newExplorer False 2 4 1 2)
   \<and> 0 < canvasHeight (newExplorer False 2 4 1 2)
   \<and> bands 2 2 = [(0, 1), (1, 2)]
   \<and> pixelRGBA (workerParams (newExplorer False 2 4 1 2) 0 1) 0 0 = (0, 0, 0, 255)
   \<and> pixelRGBA (workerParams (newExplorer False 2 4 1 2) 1 2) 0 1 = (0, 0, 0, 255)
   \<and> r_imageData (onmessage (workerParams (newExplorer False 2 4 1 2) 1 2))
       = [0, 0, 0, 0, 0, 0, 0, 255]
   \<and> renderCPU (newExplorer False 2 4 1 2) = Drawn [0, 0, 0, 255, 0, 0, 0, 0]"
proof -
  let ?s = "newExplorer False 2 4 1 2"
  have h: "\<not> isRendering ?s" "1 \<le> numWorkers ?s" "0 < canvasWidth ?s" "0 < canvasHeight ?s"
    by (simp_all add: newExplorer_def)
  have dims: "canvasWidth ?s = 1" "canvasHeight ?s = 2" "numWorkers ?s = 2"
    by (simp_all add: newExplorer_def)
  have b: "bands 2 2 = [(0, 1), (1, 2)]"
    by (simp add: bands_def rowsPerWorker_int bandsFrom.simps)
  have p0: "pixelRGBA (workerParams ?s 0 1) 0 0 = (0, 0, 0, 255)"
    by (rule pixelRGBA_no_colour)
      (simp_all add: workerParams_def newExplorer_def pixelToComplex_def evaluate_def
        sampleColor_def cardioidTest_def)
  have p1: "pixelRGBA (workerParams ?s 1 2) 0 1 = (0, 0, 0, 255)"
    by (rule pixelRGBA_no_colour)
      (simp_all add: workerParams_def newExplorer_def pixelToComplex_def evaluate_def
        sampleColor_def cardioidTest_def)
  from only_first_band_drawn[OF h] obtain fb where
    r: "renderCPU ?s = Drawn fb" and len: "length fb = 8"
    and px: "\<And>startY endY x y c.
               (startY, endY) \<in> set (bands 2 2) \<and> startY \<le> y \<and> y < endY \<and> x < 1 \<and> c < 4
               \<Longrightarrow> fb ! ((y * 1 + x) * 4 + c)
                     = (if startY = 0
                        then channel c (pixelRGBA (workerParams ?s startY endY) x y) else 0)"
    unfolding dims by auto
  have row0: "fb ! c = channel c (0, 0, 0, 255)" if "c < 4" for c
  proof -
    have pre: "(0, 1) \<in> set (bands 2 2) \<and> (0::nat) \<le> 0 \<and> (0::nat) < 1 \<and> (0::nat) < 1 \<and> c < 4"
      using that by (simp add: b)
    have "fb ! ((0 * 1 + 0) * 4 + c)
            = (if (0::nat) = 0 then channel c (pixelRGBA (workerParams ?s 0 1) 0 0) else 0)"
      by (rule px[OF pre])
    then have "fb ! ((0 * 1 + 0) * 4 + c) = channel c (0, 0, 0, 255)"
      by (simp only: p0 if_True refl simp_thms)
    then show ?thesis by simp
  qed
  have row1: "fb ! (4 + c) = 0" if "c < 4" for c
  proof -
    have pre: "(1, 2) \<in> set (bands 2 2) \<and> (1::nat) \<le> 1 \<and> (1::nat) < 2 \<and> (0::nat) < 1 \<and> c < 4"
      using that by (simp add: b)
    have "fb ! ((1 * 1 + 0) * 4 + c)
            = (if (1::nat) = 0 then channel c (pixelRGBA (workerParams ?s 1 2) 0 1) else 0)"
      by (rule px[OF pre])
    then show ?thesis by simp
  qed
  have "fb = [fb ! 0, fb ! 1, fb ! 2, fb ! 3, fb ! 4, fb ! 5, fb ! 6, fb ! 7]"
    using len by (rule list8)
  also have "\<dots> = [0, 0, 0, 255, 0, 0, 0, 0]"
    using row0[of 0] row0[of 1] row0[of 2] row0[of 3] row1[of 0] row1[of 1] row1[of 2] row1[of 3]
    by (simp add: channel_def)
  finally have "renderCPU ?s = Drawn [0, 0, 0, 255, 0, 0, 0, 0]"
    using r by simp
  moreover have "calculateMandelbrot (workerParams ?s 1 2) = [0, 0, 0, 0, 0, 0, 0, 255]"
    by (simp add: calculateMandelbrot_def calculateRow_def writePixel_def workerParams_def
        newExplorer_def pixelRGBA_def samples_def sampleOffsets_def addSample_def
        pixelToComplex_def evaluate_def cardioidTest_def sampleColor_def toUint8Clamp_def
        Let_def replicate_numeral list_update_Cons_numeral upt_conv_Cons)
  then have "r_imageData (onmessage (workerParams ?s 1 2)) = [0, 0, 0, 0, 0, 0, 0, 255]"
    by (simp only: onmessage_def result.simps)
  ultimately show ?thesis using h b p0 p1 by (intro conjI)
qed

text \<open>
  C2: the pixel mapping is claimed to use the view's zoom. Every message \<open>renderCPU\<close>
  posts carries \<open>this.zoom * 200\<close> as \<open>zoom\<close>, and the worker maps with that value. For
  the view centred at 0 with zoom 1 on a 4 by 4 canvas, pixel \<open>(0, 0)\<close> is mapped to
  \<open>(-0.01, 0.01)\<close>, where the formula with the view's zoom gives \<open>(-2, 2)\<close>; with the
  Ocean palette and smoothing off the worker stores opaque black for it (the point is
  in the cardioid), where a worker given the view's zoom would store \<open>(0, 18, 38, 255)\<close>.
\<close>

theorem worker_zoom_times_200:
  "map p_zoom (workerMessages s) = replicate (length (workerMessages s)) (zoom s * 200)
   \<and> workerMessages
        ((newExplorer False 1 4 4 4)\<lparr>centerX := 0, zoom := 1, colorScheme := 2, smoothing := False\<rparr>)
       = [\<lparr>p_startX = 0, p_endX = 4, p_startY = 0, p_endY = 4, p_width = 4, p_height = 4,
           p_centerX = 0, p_centerY = 0, p_zoom = 200, p_maxIterations = 1000,
           p_colorScheme = 2, p_smoothing = False, p_antialiasing = False\<rparr>]
   \<and> pixelToComplex 0 0 0 0 4 4 0 0 200 = (- (1 / 100), 1 / 100)
   \<and> pixelToComplex 0 0 0 0 4 4 0 0 1 = (- 2, 2)
   \<and> pixelRGBA
        \<lparr>p_startX = 0, p_endX = 4, p_startY = 0, p_endY = 4, p_width = 4, p_height = 4,
          p_centerX = 0, p_centerY = 0, p_zoom = 200, p_maxIterations = 1000,
          p_colorScheme = 2, p_smoothing = False, p_antialiasing = False\<rparr> 0 0
       = (0, 0, 0, 255)
   \<and> pixelRGBA
        \<lparr>p_startX = 0, p_endX = 4, p_startY = 0, p_endY = 4, p_width = 4, p_height = 4,
          p_centerX = 0, p_centerY = 0, p_zoom = 1, p_maxIterations = 1000,
          p_colorScheme = 2, p_smoothing = False, p_antialiasing = False\<rparr> 0 0
       = (0, 18, 38, 255)"
proof -
  have a: "map p_zoom (workerMessages s) = replicate (length (workerMessages s)) (zoom s * 200)"
    by (simp add: workerMessages_def workerParams_def map_replicate_const comp_def)
  have b: "workerMessages
        ((newExplorer False 1 4 4 4)\<lparr>centerX := 0, zoom := 1, colorScheme := 2, smoothing := False\<rparr>)
       = [\<lparr>p_startX = 0, p_endX = 4, p_startY = 0, p_endY = 4, p_width = 4, p_height = 4,
           p_centerX = 0, p_centerY = 0, p_zoom = 200, p_maxIterations = 1000,
           p_colorScheme = 2, p_smoothing = False, p_antialiasing = False\<rparr>]"
    by (simp add: newExplorer_def detectPerformance_def workerMessages_def bands_def
        rowsPerWorker_int bandsFrom.simps workerParams_def cpuIterations_def
        adaptiveIterationsCPU_def)
  have c: "pixelToComplex 0 0 0 0 4 4 0 0 200 = (- (1 / 100), 1 / 100)"
    by (simp add: pixelToComplex_def)
  have d: "pixelToComplex 0 0 0 0 4 4 0 0 1 = (- 2, 2)"
    by (simp add: pixelToComplex_def)
  have e: "pixelRGBA
        \<lparr>p_startX = 0, p_endX = 4, p_startY = 0, p_endY = 4, p_width = 4, p_height = 4,
          p_centerX = 0, p_centerY = 0, p_zoom = 200, p_maxIterations = 1000,
          p_colorScheme = 2, p_smoothing = False, p_antialiasing = False\<rparr> 0 0
       = (0, 0, 0, 255)"
    by (simp add: pixelRGBA_def samples_def sampleOffsets_def addSample_def pixelToComplex_def
        evaluate_def cardioidTest_def sampleColor_def toUint8Clamp_def Let_def)
  have f: "pixelRGBA
        \<lparr>p_startX = 0, p_endX = 4, p_startY = 0, p_endY = 4, p_width = 4, p_height = 4,
          p_centerX = 0, p_centerY = 0, p_zoom = 1, p_maxIterations = 1000,
          p_colorScheme = 2, p_smoothing = False, p_antialiasing = False\<rparr> 0 0
       = (0, 18, 38, 255)"
    by (simp add: pixelRGBA_def samples_def sampleOffsets_def addSample_def pixelToComplex_def
        evaluate_def cardioidTest_def bulbTest_def sampleColor_def toUint8Clamp_def Let_def
        mandelbrotLoop.simps complexSquare_def smoothIter_def getColor_def oceanColor_def)
  from a b c d e f show ?thesis by (simp only: simp_thms)
qed

text \<open>
  C3 (as stated): with zoom 1 and ceiling 2000 the iteration budget is the lower bound,
  500 on the WebGL path and 1000 on the worker path. The code gives 1000 and 2000:
  \<open>zoomFactor\<close> is at least 1, so the floor is already twice the base.
\<close>

theorem budget_at_zoom_one_counterexample:
  "adaptiveIterationsGPU 1 2000 \<noteq> 500 \<and> adaptiveIterationsCPU 1 2000 \<noteq> 1000"
  by (simp add: adaptiveIterationsGPU_def adaptiveIterationsCPU_def)

text \<open>
  C3 (amended): with zoom 1 and ceiling 2000 the budget is 1000 on the
  WebGL path and 2000 on the worker path; with zoom \<open>10^6\<close> and ceiling 2000 it is 2000
  on both; and the policy is \<open>min ceiling (max lowerBound (floor (base + max 1 (log10 zoom) * step)))\<close>
  with base, step and lower bound 500 (WebGL) or 1000 (worker). The same values are what
  \<open>renderWebGL\<close> and \<open>renderCPU\<close> compute from a state with adaptive quality on.
\<close>

theorem budget_policy:
  "adaptiveIterationsGPU 1 2000 = 1000
   \<and> adaptiveIterationsCPU 1 2000 = 2000
   \<and> adaptiveIterationsGPU 1000000 2000 = 2000
   \<and> adaptiveIterationsCPU 1000000 2000 = 2000
   \<and> (\<forall>z c. adaptiveIterationsGPU z c = min c (max 500 (nat \<lfloor>500 + max 1 (log 10 z) * 500\<rfloor>)))
   \<and> (\<forall>z c. adaptiveIterationsCPU z c = min c (max 1000 (nat \<lfloor>1000 + max 1 (log 10 z) * 1000\<rfloor>)))
   \<and> (\<forall>s. webglIterations (s\<lparr>adaptiveQuality := True, zoom := 1, maxIterations := 2000\<rparr>) = 1000)
   \<and> (\<forall>s. cpuIterations (s\<lparr>adaptiveQuality := True, zoom := 1, maxIterations := 2000\<rparr>) = 2000)"
  by (simp add: adaptiveIterationsGPU_def adaptiveIterationsCPU_def webglIterations_def
      cpuIterations_def log10_million)

text \<open>
  C4: for every point \<open>(x, y)\<close> that neither interior test catches and every budget, the
  worker's loop computes the orbit \<open>z (n + 1) = (z n)\<^sup>2 + c\<close> from \<open>z 0 = 0\<close> with
  \<open>c = (x, y)\<close>: it is left after \<open>n\<close> steps, \<open>n\<close> at most the budget, with \<open>z n\<close>, and no
  earlier orbit point has \<open>|z|\<^sup>2 > 256\<close>. Either \<open>|z n|\<^sup>2 > 256\<close>, and the point counts
  as escaped with \<open>iterations = n - 1\<close>; or the budget is used up, \<open>iterations\<close> equals the
  budget, the point is not escaped, no colour is computed for the sample (the palette
  is not consulted), and a pixel rendered from this one sample is opaque black.
\<close>

theorem evaluate_iterates:
  assumes "\<not> cardioidTest x y" and "\<not> bulbTest x y"
  shows "\<exists>zr zi iterations n.
           evaluate x y maxIter = Iterated zr zi iterations n
         \<and> n \<le> maxIter
         \<and> Complex zr zi = spec_orbit (Complex x y) n
         \<and> (\<forall>k. 0 < k \<and> k < n \<longrightarrow> (cmod (spec_orbit (Complex x y) k))\<^sup>2 \<le> 256)
         \<and> (if 0 < n \<and> (cmod (spec_orbit (Complex x y) n))\<^sup>2 > 256
            then iterations = n - 1 \<and> escaped (evaluate x y maxIter) maxIter
            else n = maxIter \<and> iterations = maxIter
               \<and> \<not> escaped (evaluate x y maxIter) maxIter
               \<and> (\<forall>colorScheme smoothing.
                     sampleColor (evaluate x y maxIter) maxIter colorScheme smoothing = None)
               \<and> (\<forall>p px py.
                     \<not> p_antialiasing p \<and> p_maxIterations p = maxIter
                     \<and> pixelToComplex (real px) (real py) 0 0 (real (p_width p)) (real (p_height p))
                          (p_centerX p) (p_centerY p) (p_zoom p) = (x, y)
                     \<longrightarrow> pixelRGBA p px py = (0, 0, 0, 255)))"
proof -
  let ?c = "Complex x y"
  obtain zr zi it n where
    ev: "evaluate x y maxIter = Iterated zr zi it n"
    and n: "n \<le> maxIter"
    and z: "Complex zr zi = spec_orbit ?c n"
    and before: "\<forall>k. 0 < k \<and> k < n \<longrightarrow> (cmod (spec_orbit ?c k))\<^sup>2 \<le> 256"
    and fin: "if 0 < n \<and> (cmod (spec_orbit ?c n))\<^sup>2 > 256 then it = n - 1
              else n = maxIter \<and> it = maxIter"
    using evaluate_orbit[OF assms, of maxIter] by blast
  show ?thesis
  proof (cases "0 < n \<and> (cmod (spec_orbit ?c n))\<^sup>2 > 256")
    case True
    with fin n have "it = n - 1" and "it < maxIter" by auto
    with True ev n z before show ?thesis
      by (intro exI[of _ zr] exI[of _ zi] exI[of _ it] exI[of _ n]) simp
  next
    case False
    with fin have nM: "n = maxIter" and itM: "it = maxIter" by auto
    have nesc: "\<not> escaped (evaluate x y maxIter) maxIter"
      by (simp add: ev itM)
    have none: "sampleColor (evaluate x y maxIter) maxIter colorScheme smoothing = None"
      for colorScheme smoothing
      by (simp add: ev itM sampleColor_def)
    have black: "pixelRGBA p px py = (0, 0, 0, 255)"
      if "\<not> p_antialiasing p \<and> p_maxIterations p = maxIter
          \<and> pixelToComplex (real px) (real py) 0 0 (real (p_width p)) (real (p_height p))
               (p_centerX p) (p_centerY p) (p_zoom p) = (x, y)"
      for p px py
      using that by (intro pixelRGBA_no_colour) (simp_all add: none)
    from False ev nM itM z before nesc none black show ?thesis
      by (intro exI[of _ zr] exI[of _ zi] exI[of _ it] exI[of _ n]) simp
  qed
qed

text \<open>
  The point \<open>i\<close> with budget 3 stays bounded and is not escaped; the point \<open>2 + 2i\<close> leaves
  the radius at the third step and is escaped with \<open>iterations = 2\<close>.
\<close>

theorem evaluate_iterates_witness:
  "\<not> cardioidTest 0 1 \<and> \<not> bulbTest 0 1
   \<and> evaluate 0 1 3 = Iterated 0 (-1) 3 3
   \<and> spec_orbit (Complex 0 1) 3 = Complex 0 (-1)
   \<and> \<not> escaped (evaluate 0 1 3) 3
   \<and> sampleColor (evaluate 0 1 3) 3 0 True = None
   \<and> \<not> cardioidTest 2 2 \<and> \<not> bulbTest 2 2
   \<and> evaluate 2 2 3 = Iterated (-94) 42 2 3
   \<and> spec_orbit (Complex 2 2) 3 = Complex (-94) 42
   \<and> escaped (evaluate 2 2 3) 3"
proof -
  have h1: "\<not> cardioidTest 0 1" by (simp add: cardioidTest_def)
  have h2: "\<not> bulbTest 0 1" by (simp add: bulbTest_def)
  have g1: "\<not> cardioidTest 2 2" by (simp add: cardioidTest_def)
  have g2: "\<not> bulbTest 2 2" by (simp add: bulbTest_def)
  have o1: "spec_orbit (Complex 0 1) 3 = Complex 0 (-1)"
    by (simp add: numeral_3_eq_3 complex_eq_iff power2_eq_square)
  have o2: "spec_orbit (Complex 2 2) 3 = Complex (-94) 42"
    by (simp add: numeral_3_eq_3 complex_eq_iff power2_eq_square)
  have small: "\<not> (cmod (Complex 0 (-1)))\<^sup>2 > 256"
    by (simp add: cmod_power2)
  have big: "(cmod (Complex (-94) 42))\<^sup>2 > 256"
    by (simp add: cmod_power2)
  from evaluate_iterates[OF h1 h2, of 3] evaluate_0_1_3 o1 small
  have a: "\<not> escaped (evaluate 0 1 3) 3 \<and> sampleColor (evaluate 0 1 3) 3 0 True = None"
    by auto
  from evaluate_iterates[OF g1 g2, of 3] evaluate_2_2_3 o2 big
  have b: "escaped (evaluate 2 2 3) 3"
    by auto
  from h1 h2 g1 g2 o1 o2 a b evaluate_0_1_3 evaluate_2_2_3 show ?thesis
    by simp
qed

text \<open>
  C5: for every point that satisfies the cardioid test
  \<open>q * (q + (x - 0.25)) \<le> 0.25 * y\<^sup>2\<close> with \<open>q = (x - 0.25)\<^sup>2 + y\<^sup>2\<close>, or the period-2 bulb test
  \<open>(x + 1)\<^sup>2 + y\<^sup>2 \<le> 0.0625\<close>, the worker takes \<open>continue\<close>: the point is not escaped, the
  iteration loop runs zero times, no colour is computed, and a pixel rendered from this
  one sample is opaque black.
\<close>

theorem interior_tests_skip_loop:
  assumes "((x - 0.25)\<^sup>2 + y\<^sup>2) * (((x - 0.25)\<^sup>2 + y\<^sup>2) + (x - 0.25)) \<le> 0.25 * y\<^sup>2
           \<or> (x + 1)\<^sup>2 + y\<^sup>2 \<le> 0.0625"
  shows "evaluate x y maxIter = Skipped
       \<and> \<not> escaped (evaluate x y maxIter) maxIter
       \<and> loopSteps (evaluate x y maxIter) = 0
       \<and> sampleColor (evaluate x y maxIter) maxIter scheme smooth = None
       \<and> (\<forall>p px py.
             \<not> p_antialiasing p \<and> p_maxIterations p = maxIter
             \<and> pixelToComplex (real px) (real py) 0 0 (real (p_width p)) (real (p_height p))
                  (p_centerX p) (p_centerY p) (p_zoom p) = (x, y)
             \<longrightarrow> pixelRGBA p px py = (0, 0, 0, 255))"
proof -
  from assms have "cardioidTest x y \<or> bulbTest x y"
    by (simp add: cardioidTest_def bulbTest_def Let_def power2_eq_square)
  then have ev: "evaluate x y maxIter = Skipped"
    by (auto simp: evaluate_def)
  have none: "sampleColor (evaluate x y maxIter) maxIter cs sm = None" for cs sm
    by (simp add: ev sampleColor_def)
  have black: "pixelRGBA p px py = (0, 0, 0, 255)"
    if "\<not> p_antialiasing p \<and> p_maxIterations p = maxIter
        \<and> pixelToComplex (real px) (real py) 0 0 (real (p_width p)) (real (p_height p))
             (p_centerX p) (p_centerY p) (p_zoom p) = (x, y)"
    for p px py
    using that by (intro pixelRGBA_no_colour) (simp_all add: none)
  from ev none black show ?thesis by simp
qed

text \<open>
  The origin passes the cardioid test; the point \<open>-1\<close> fails it and passes the bulb test.
\<close>

theorem interior_tests_skip_loop_witness:
  "(((0::real) - 0.25)\<^sup>2 + 0\<^sup>2) * (((0 - 0.25)\<^sup>2 + 0\<^sup>2) + (0 - 0.25)) \<le> 0.25 * 0\<^sup>2
   \<and> evaluate 0 0 1000 = Skipped
   \<and> loopSteps (evaluate 0 0 1000) = 0
   \<and> \<not> escaped (evaluate 0 0 1000) 1000
   \<and> (((-1::real) - 0.25)\<^sup>2 + 0\<^sup>2) * (((-1 - 0.25)\<^sup>2 + 0\<^sup>2) + (-1 - 0.25)) > 0.25 * 0\<^sup>2
   \<and> ((-1::real) + 1)\<^sup>2 + 0\<^sup>2 \<le> 0.0625
   \<and> evaluate (-1) 0 1000 = Skipped
   \<and> loopSteps (evaluate (-1) 0 1000) = 0"
proof -
  have h1: "(((0::real) - 0.25)\<^sup>2 + 0\<^sup>2) * (((0 - 0.25)\<^sup>2 + 0\<^sup>2) + (0 - 0.25)) \<le> 0.25 * 0\<^sup>2"
    by (simp add: power2_eq_square)
  have h2: "((-1::real) + 1)\<^sup>2 + 0\<^sup>2 \<le> 0.0625"
    by simp
  have h3: "(((-1::real) - 0.25)\<^sup>2 + 0\<^sup>2) * (((-1 - 0.25)\<^sup>2 + 0\<^sup>2) + (-1 - 0.25)) > 0.25 * 0\<^sup>2"
    by (simp add: power2_eq_square)
  from interior_tests_skip_loop[OF disjI1[OF h1], where maxIter = 1000]
       interior_tests_skip_loop[OF disjI2[OF h2], where maxIter = 1000] h1 h2 h3
  show ?thesis by simp
qed

text \<open>
  C6 (as stated): whenever the evaluation escapes before the budget and smoothing is on,
  the smooth count is \<open>iterations + 1 - log2 (log2 |z|)\<close>. At \<open>2 + 2i\<close> with budget 3 the
  evaluation escapes with \<open>iterations = 2\<close>, which is \<open>maxIterations - 1\<close>: the guard of
  \<open>getSmoothIteration\<close> returns the raw count 2, and the formula gives less than 1.
\<close>

theorem smooth_count_last_step_counterexample:
  "evaluate 2 2 3 = Iterated (-94) 42 2 3
   \<and> escaped (evaluate 2 2 3) 3
   \<and> smoothIter True (-94) 42 2 3 = 2
   \<and> smoothIter True (-94) 42 2 3 \<noteq> real 2 + 1 - log 2 (log 2 (complexMagnitude (-94) 42))"
proof -
  have s: "smoothIter True (-94) 42 2 3 = 2"
    by (simp add: smoothIter_def getSmoothIteration_def)
  have "2 < log 2 (log 2 (complexMagnitude (-94) 42))"
    by (rule log2_log2_big) simp
  then have "real 2 + 1 - log 2 (log 2 (complexMagnitude (-94) 42)) < 1"
    by simp
  with s evaluate_2_2_3 show ?thesis by simp
qed

text \<open>
  C6 (amended): for every evaluation that escapes before the budget, with final point
  \<open>z\<close> (the orbit point after the escaping step) and modulus \<open>|z|\<close> computed from it:
  with smoothing on, the smooth count is \<open>iterations + 1 - log2 (log2 |z|)\<close> when
  \<open>iterations < maxIterations - 1\<close>, and the raw count when \<open>iterations = maxIterations - 1\<close>;
  with smoothing off it is the raw count. The colour of the sample is the palette at
  the smooth count divided by the budget.
\<close>

theorem smooth_count:
  assumes "evaluate x y maxIter = Iterated zr zi it n" and "it < maxIter"
  shows "escaped (evaluate x y maxIter) maxIter
       \<and> Complex zr zi = spec_orbit (Complex x y) n
       \<and> complexMagnitude zr zi = cmod (Complex zr zi)
       \<and> smoothIter True zr zi it maxIter
           = (if it + 1 < maxIter then real it + 1 - log 2 (log 2 (complexMagnitude zr zi))
              else real it)
       \<and> smoothIter False zr zi it maxIter = real it
       \<and> sampleColor (evaluate x y maxIter) maxIter scheme smooth
           = Some (getColor (smoothIter smooth zr zi it maxIter / real maxIter) scheme)"
proof -
  from assms(1) have t: "\<not> cardioidTest x y" "\<not> bulbTest x y"
    by (auto simp: evaluate_def split: if_splits)
  from evaluate_orbit[OF t, of maxIter] assms(1)
  have z: "Complex zr zi = spec_orbit (Complex x y) n" by auto
  have m: "complexMagnitude zr zi = cmod (Complex zr zi)"
    by (simp add: complexMagnitude_def cmod_def power2_eq_square)
  have s: "smoothIter True zr zi it maxIter
           = (if it + 1 < maxIter then real it + 1 - log 2 (log 2 (complexMagnitude zr zi))
              else real it)"
    by (auto simp: smoothIter_def getSmoothIteration_def Let_def)
  from assms z m s show ?thesis
    by (simp add: sampleColor_def smoothIter_def)
qed

text \<open>The point \<open>2 + 2i\<close> with budget 4: \<open>iterations = 2 < 3\<close>, so the correction applies.\<close>

theorem smooth_count_witness:
  "evaluate 2 2 4 = Iterated (-94) 42 2 3 \<and> (2::nat) < 4
   \<and> smoothIter True (-94) 42 2 4 = 3 - log 2 (log 2 (complexMagnitude (-94) 42))
   \<and> smoothIter False (-94) 42 2 4 = 2"
proof -
  have h: "(2::nat) < 4" by simp
  from smooth_count[OF evaluate_2_2_4 h] evaluate_2_2_4 show ?thesis by simp
qed

text \<open>
  C7: for every height and every number of workers that is at least 1, the bands handed
  out by \<open>renderCPU\<close> are contiguous and in order: band \<open>k\<close> is
  \<open>[k * rows, min ((k + 1) * rows) height)\<close> with \<open>rows = ceil (height / workers)\<close>, it is
  not empty, every band but the last has exactly \<open>rows\<close> rows, there are at most
  \<open>workers\<close> bands, distinct bands share no row, and the rows of all bands, band after
  band, are exactly \<open>0, ..., height - 1\<close>.
\<close>

theorem bands_partition:
  assumes "1 \<le> workers"
  shows "concat (map (\<lambda>b. [fst b..<snd b]) (bands height workers)) = [0..<height]
       \<and> (\<Union>b\<in>set (bands height workers). {fst b..<snd b}) = {0..<height}
       \<and> length (bands height workers) \<le> workers
       \<and> (\<forall>k. k < length (bands height workers) \<longrightarrow>
             bands height workers ! k =
               (k * nat \<lceil>real height / real workers\<rceil>,
                min ((k + 1) * nat \<lceil>real height / real workers\<rceil>) height)
             \<and> fst (bands height workers ! k) < snd (bands height workers ! k)
             \<and> snd (bands height workers ! k) - fst (bands height workers ! k)
                 \<le> nat \<lceil>real height / real workers\<rceil>)
       \<and> (\<forall>k. k + 1 < length (bands height workers) \<longrightarrow>
             snd (bands height workers ! k) - fst (bands height workers ! k)
               = nat \<lceil>real height / real workers\<rceil>
             \<and> snd (bands height workers ! k) = fst (bands height workers ! (k + 1)))
       \<and> (\<forall>j k. j < k \<and> k < length (bands height workers) \<longrightarrow>
             {fst (bands height workers ! j)..<snd (bands height workers ! j)}
             \<inter> {fst (bands height workers ! k)..<snd (bands height workers ! k)} = {})"
proof -
  define rpw where "rpw = rowsPerWorker height workers"
  define bs where "bs = bands height workers"
  have rpw: "nat \<lceil>real height / real workers\<rceil> = rpw"
    by (simp add: rpw_def rowsPerWorker_def)
  have bs: "bs = bandsFrom 0 workers rpw height"
    by (simp add: bs_def bands_def rpw_def)
  have cover: "height \<le> workers * rpw"
    unfolding rpw_def using assms by (rule rowsPerWorker_covers)
  have c1: "concat (map (\<lambda>b. [fst b..<snd b]) bs) = [0..<height]"
    using bandsFrom_concat[OF cover, of 0] by (simp add: bs)
  have "set (concat (map (\<lambda>b. [fst b..<snd b]) bs)) = (\<Union>b\<in>set bs. {fst b..<snd b})"
    by simp
  with c1 have c2: "(\<Union>b\<in>set bs. {fst b..<snd b}) = {0..<height}"
    by simp
  have c3: "length bs \<le> workers"
    using bandsFrom_length[of 0 workers rpw height] by (simp add: bs)
  have nth: "bs ! k = (k * rpw, min ((k + 1) * rpw) height) \<and> k * rpw < height"
    if "k < length bs" for k
    using bandsFrom_nth[of k 0 workers rpw height] that by (simp add: bs)
  have c4: "bs ! k = (k * rpw, min ((k + 1) * rpw) height)
            \<and> fst (bs ! k) < snd (bs ! k) \<and> snd (bs ! k) - fst (bs ! k) \<le> rpw"
    if "k < length bs" for k
  proof -
    from nth[OF that] have e: "bs ! k = (k * rpw, min ((k + 1) * rpw) height)"
      and lt: "k * rpw < height" by simp_all
    from lt cover have "0 < rpw" by (cases rpw) simp_all
    with e lt show ?thesis by (auto simp: min_def)
  qed
  have c5: "snd (bs ! k) - fst (bs ! k) = rpw \<and> snd (bs ! k) = fst (bs ! (k + 1))"
    if "k + 1 < length bs" for k
  proof -
    from that have k: "k < length bs" by simp
    from nth[OF that] have "(k + 1) * rpw < height" by simp
    with nth[OF k] nth[OF that] show ?thesis by (simp add: min_def)
  qed
  have c6: "{fst (bs ! j)..<snd (bs ! j)} \<inter> {fst (bs ! k)..<snd (bs ! k)} = {}"
    if "j < k \<and> k < length bs" for j k
  proof -
    from that have j: "j < length bs" and k: "k < length bs" and jk: "j + 1 \<le> k" by simp_all
    from jk have "(j + 1) * rpw \<le> k * rpw" by (rule mult_le_mono1)
    then have "snd (bs ! j) \<le> fst (bs ! k)"
      using nth[OF j] nth[OF k] by (simp add: min_def)
    then show ?thesis by auto
  qed
  from c1 c2 c3 c4 c5 c6 show ?thesis
    unfolding rpw bs_def by blast
qed

text \<open>Ten rows on four workers: three bands of three rows and a last band of one.\<close>

theorem bands_partition_witness:
  "(1::nat) \<le> 4
   \<and> bands 10 4 = [(0, 3), (3, 6), (6, 9), (9, 10)]
   \<and> concat (map (\<lambda>b. [fst b..<snd b]) (bands 10 4)) = [0..<10]
   \<and> (\<Union>b\<in>set (bands 10 4). {fst b..<snd b}) = {0..<10}"
proof -
  have h: "(1::nat) \<le> 4" by simp
  have e: "bands 10 4 = [(0, 3), (3, 6), (6, 9), (9, 10)]"
    by (simp add: bands_def rowsPerWorker_int bandsFrom.simps)
  from bands_partition[OF h, of 10] h e show ?thesis by blast
qed




text \<open>
  C9: every channel \<open>getColor\<close> returns is claimed to lie in \<open>[0, 255]\<close>. The input is
  clamped to \<open>[0, 1]\<close> first and each channel is a floor, but with the Fire palette
  (\<open>colorScheme = 1\<close>) at \<open>t = 0.3333\<close> the green channel is 256: \<open>3t mod 1 = 0.9999\<close> falls in
  the last segment, which starts at 0.66 and not at two thirds, so
  \<open>p = (0.9999 - 0.66) * 3 = 1.0197\<close> exceeds 1 and \<open>g = 0.8 + 0.2 * p = 1.00394\<close>.
  (Lemma \<open>getColor_range\<close> above bounds every other channel of every palette by 255.)
\<close>

theorem getColor_fire_green_256:
  "getColor 0.3333 1 = (255, 256, 208)"
  by (simp add: getColor_def fireColor_def jsMod1_def)

text \<open>
  C10: what \<open>renderCPU\<close> produces does not depend on the \<open>antialiasing\<close> field: setting
  the field to any value, or toggling it, changes neither the messages posted to the
  workers nor the outcome; every message carries \<open>antialiasing = false\<close>, so every
  worker takes one sample per pixel.
\<close>

theorem antialiasing_ignored:
  "renderCPU (s\<lparr>antialiasing := a\<rparr>) = renderCPU s
   \<and> renderCPU (toggleAntialiasing s) = renderCPU s
   \<and> workerMessages (s\<lparr>antialiasing := a\<rparr>) = workerMessages s
   \<and> map p_antialiasing (workerMessages s) = replicate (length (workerMessages s)) False
   \<and> map (\<lambda>m. samples (p_antialiasing m)) (workerMessages s)
       = replicate (length (workerMessages s)) 1"
proof -
  have m: "workerMessages (s\<lparr>antialiasing := b\<rparr>) = workerMessages s" for b
    by (simp add: workerMessages_def workerParams_antialiasing)
  have r: "renderCPU (s\<lparr>antialiasing := b\<rparr>) = renderCPU s" for b
    by (simp add: renderCPU_def m)
  have f: "map p_antialiasing (workerMessages s) = replicate (length (workerMessages s)) False"
    by (simp add: workerMessages_def workerParams_def map_replicate_const comp_def)
  have g: "map (\<lambda>m. samples (p_antialiasing m)) (workerMessages s)
       = replicate (length (workerMessages s)) 1"
    by (simp add: workerMessages_def workerParams_def map_replicate_const samples_def comp_def)
  from m r f g show ?thesis
    by (simp add: toggleAntialiasing_def)
qed

end
